theory Spec2Isabelle
  imports Main "HOL-Library.AList" "HOL-Library.Sublist"
begin

section \<open>Values read from the store\<close>

text \<open>
  The worker (\<^verbatim>\<open>src/worker.js\<close>) keeps no data of its own: schedule and threshold
  configuration, sensor readings and actuator flags are JSON documents of an external
  store. Object keys are strings; a JavaScript object is an association list in
  insertion order (\<open>AList.update\<close> overwrites in place and appends a new key at the
  end, as assignment to an object property does).
\<close>

text \<open>Decimal rendering of a number inside a template literal, \<^verbatim>\<open>`${n}`\<close>.\<close>

definition digit_char :: "nat \<Rightarrow> char" where
  "digit_char d = char_of (of_char CHR ''0'' + d)"

fun show_nat :: "nat \<Rightarrow> string" where
  "show_nat n = (if n < 10 then [digit_char n] else show_nat (n div 10) @ [digit_char (n mod 10)])"

declare show_nat.simps [simp del]

definition show_int :: "int \<Rightarrow> string" where
  "show_int i = (if i < 0 then CHR ''-'' # show_nat (nat (- i)) else show_nat (nat i))"

text \<open>
  A sensor reading as the store returns it. Numbers are taken to be integers (moisture
  percentages); everything that is neither a number nor a string stands for the values
  \<^verbatim>\<open>parseInt\<close> maps to \<^verbatim>\<open>NaN\<close> whatever they hold (\<^verbatim>\<open>null\<close>, booleans, objects).
\<close>

datatype jval = JUndefined | JNull | JBool bool | JNum int | JStr string

text \<open>
  \<^verbatim>\<open>parseInt(v)\<close> with no radix: leading white space is dropped, then an optional sign,
  then an optional \<^verbatim>\<open>0x\<close> prefix that switches to base 16, then the longest run of
  digits; no digit at all gives \<^verbatim>\<open>NaN\<close>, here \<open>None\<close>. White space is the ASCII part of
  what JavaScript strips.
\<close>

definition is_space :: "char \<Rightarrow> bool" where
  "is_space c = (c \<in> set [CHR '' '', CHR 0x09, CHR 0x0A, CHR 0x0B, CHR 0x0C, CHR 0x0D])"

definition digit_val :: "char \<Rightarrow> nat option" where
  "digit_val c =
     (let n = (of_char c :: nat) in
      if 48 \<le> n \<and> n \<le> 57 then Some (n - 48)
      else if 97 \<le> n \<and> n \<le> 102 then Some (n - 87)
      else if 65 \<le> n \<and> n \<le> 70 then Some (n - 55)
      else None)"

fun parse_digits :: "nat \<Rightarrow> string \<Rightarrow> nat option \<Rightarrow> nat option" where
  "parse_digits radix [] acc = acc"
| "parse_digits radix (c # cs) acc =
     (case digit_val c of
        None \<Rightarrow> acc
      | Some d \<Rightarrow>
          if d < radix
          then parse_digits radix cs (Some ((case acc of None \<Rightarrow> 0 | Some a \<Rightarrow> a) * radix + d))
          else acc)"

definition parse_unsigned :: "string \<Rightarrow> nat option" where
  "parse_unsigned s =
     (case s of
        c0 # cx # rest \<Rightarrow>
          if c0 = CHR ''0'' \<and> (cx = CHR ''x'' \<or> cx = CHR ''X'')
          then parse_digits 16 rest None
          else parse_digits 10 s None
      | _ \<Rightarrow> parse_digits 10 s None)"

definition parse_int_string :: "string \<Rightarrow> int option" where
  "parse_int_string s =
     (case dropWhile is_space s of
        [] \<Rightarrow> None
      | c # cs \<Rightarrow>
          if c = CHR ''-'' then map_option (\<lambda>n. - int n) (parse_unsigned cs)
          else if c = CHR ''+'' then map_option int (parse_unsigned cs)
          else map_option int (parse_unsigned (c # cs)))"

fun parseInt :: "jval \<Rightarrow> int option" where
  "parseInt (JNum n) = Some n"
| "parseInt (JStr s) = parse_int_string s"
| "parseInt _ = None"

text \<open>\<^verbatim>\<open>parseInt(data[key]) || 0\<close>: \<^verbatim>\<open>NaN\<close> and \<open>0\<close> are falsy, so both give \<open>0\<close>.\<close>

type_synonym snapshot = "(string \<times> jval) list"

definition get_prop :: "snapshot \<Rightarrow> string \<Rightarrow> jval" where
  "get_prop obj k = (case map_of obj k of None \<Rightarrow> JUndefined | Some v \<Rightarrow> v)"

definition soil_key :: "int \<Rightarrow> string" where
  "soil_key pot = ''soil_'' @ show_int pot"

definition soil_value :: "snapshot \<Rightarrow> int \<Rightarrow> int" where
  "soil_value sensorData pot =
     (case parseInt (get_prop sensorData (soil_key pot)) of None \<Rightarrow> 0 | Some n \<Rightarrow> n)"

section \<open>State client\<close>

text \<open>
  Every store operation has two transports, the realtime SDK and the REST API. What a
  transport answers is outside the program: \<open>Failed\<close> stands for a timeout or an error,
  \<open>Reply v\<close> for the value it returns. The counters are the module-level variables of
  worker.js, lines 307--314.
\<close>

datatype 'a reply = Failed | Reply 'a

datatype exn = Error string

datatype transport = SDK | REST

record client =
  consecutiveFirebaseErrors :: nat
  sdkSuccessCount :: nat
  restFallbackCount :: nat

definition SKIP_SDK_THRESHOLD :: nat where
  "SKIP_SDK_THRESHOLD = 3"

definition RESET_THRESHOLD_AFTER :: nat where
  "RESET_THRESHOLD_AFTER = 50"

text \<open>
  \<^verbatim>\<open>fetchKontrolSmart\<close> (lines 367--418). The result is the new counters, the transports
  that were called, in order, and the value returned or the error thrown.
\<close>

definition fetchKontrolSmart ::
  "client \<Rightarrow> 'a reply \<Rightarrow> 'a reply \<Rightarrow> client \<times> transport list \<times> (exn + 'a)" where
  "fetchKontrolSmart c sdk rest =
     (if consecutiveFirebaseErrors c \<ge> SKIP_SDK_THRESHOLD then
        (case rest of
           Reply data \<Rightarrow>
             let c1 = c\<lparr> restFallbackCount := restFallbackCount c + 1 \<rparr>;
                 c2 = (if restFallbackCount c1 \<ge> RESET_THRESHOLD_AFTER
                       then c1\<lparr> consecutiveFirebaseErrors := 0, restFallbackCount := 0 \<rparr>
                       else c1)
             in (c2, [REST], Inr data)
         | Failed \<Rightarrow> (c, [REST], Inl (Error ''REST API failed'')))
      else
        (case sdk of
           Reply v \<Rightarrow>
             (c\<lparr> consecutiveFirebaseErrors := 0, restFallbackCount := 0,
                 sdkSuccessCount := sdkSuccessCount c + 1 \<rparr>, [SDK], Inr v)
         | Failed \<Rightarrow>
             let c1 = c\<lparr> consecutiveFirebaseErrors := consecutiveFirebaseErrors c + 1 \<rparr>
             in (case rest of
                   Reply data \<Rightarrow>
                     (c1\<lparr> restFallbackCount := restFallbackCount c1 + 1 \<rparr>, [SDK, REST], Inr data)
                 | Failed \<Rightarrow>
                     (c1, [SDK, REST], Inl (Error ''Both SDK and REST API failed'')))))"

text \<open>
  \<^verbatim>\<open>updateFirebaseSmart\<close> (lines 451--488), \<^verbatim>\<open>setFirebaseSmart\<close> (lines 518--554) and
  \<^verbatim>\<open>readFirebaseSmart\<close> (lines 557--591) read the failure counter and leave all counters
  as they are.
\<close>

definition updateFirebaseSmart :: "client \<Rightarrow> bool \<Rightarrow> bool \<Rightarrow> transport list \<times> (exn + bool)" where
  "updateFirebaseSmart c sdkOk restOk =
     (if consecutiveFirebaseErrors c \<ge> SKIP_SDK_THRESHOLD then
        (if restOk then ([REST], Inr True) else ([REST], Inl (Error ''REST update failed'')))
      else if sdkOk then ([SDK], Inr True)
      else if restOk then ([SDK, REST], Inr True)
      else ([SDK, REST], Inl (Error ''Both SDK and REST update failed'')))"

definition setFirebaseSmart :: "client \<Rightarrow> bool \<Rightarrow> bool \<Rightarrow> transport list \<times> (exn + bool)" where
  "setFirebaseSmart c sdkOk restOk =
     (if consecutiveFirebaseErrors c \<ge> SKIP_SDK_THRESHOLD then
        (if restOk then ([REST], Inr True) else ([REST], Inl (Error ''REST set failed'')))
      else if sdkOk then ([SDK], Inr True)
      else if restOk then ([SDK, REST], Inr True)
      else ([SDK, REST], Inl (Error ''Both SDK and REST set failed'')))"

definition readFirebaseSmart :: "client \<Rightarrow> 'a reply \<Rightarrow> 'a reply \<Rightarrow> transport list \<times> (exn + 'a)" where
  "readFirebaseSmart c sdk rest =
     (if consecutiveFirebaseErrors c \<ge> SKIP_SDK_THRESHOLD then
        (case rest of
           Reply v \<Rightarrow> ([REST], Inr v)
         | Failed \<Rightarrow> ([REST], Inl (Error ''REST GET failed'')))
      else
        (case sdk of
           Reply v \<Rightarrow> ([SDK], Inr v)
         | Failed \<Rightarrow>
             (case rest of
                Reply v \<Rightarrow> ([SDK, REST], Inr v)
              | Failed \<Rightarrow> ([SDK, REST], Inl (Error ''REST GET failed'')))))"

text \<open>A sequence of \<^verbatim>\<open>fetchKontrolSmart\<close> calls, with the transports each call used.\<close>

fun run_fetches :: "client \<Rightarrow> ('a reply \<times> 'a reply) list \<Rightarrow> client \<times> transport list list" where
  "run_fetches c [] = (c, [])"
| "run_fetches c ((sdk, rest) # calls) =
     (case fetchKontrolSmart c sdk rest of
        (c', used, r) \<Rightarrow> (case run_fetches c' calls of (c'', trace) \<Rightarrow> (c'', used # trace)))"

definition fresh_client :: client where
  "fresh_client = \<lparr> consecutiveFirebaseErrors = 0, sdkSuccessCount = 0, restFallbackCount = 0 \<rparr>"

section \<open>Watering executor\<close>

text \<open>
  The processor function of \<^verbatim>\<open>wateringWorker\<close> (worker.js, lines 143--284). The fields
  of \<^verbatim>\<open>job.data\<close>; a job built by the schedule evaluator carries no \<^verbatim>\<open>smartMode\<close> and
  no \<^verbatim>\<open>sensorData\<close>, which read as falsy.
\<close>

record target =
  batasBawah :: int
  batasAtas :: int
  mode :: string
  potValues :: "(int \<times> int) list"

record job_data =
  jobType :: string
  potNumbers :: "int list"
  pompaAir :: bool
  pompaPupuk :: bool
  duration :: int
  scheduleId :: string
  thresholdId :: "string option"
  smartMode :: bool
  sensorData :: "target option"

text \<open>What \<^verbatim>\<open>wateringQueue.add(name, data, opts)\<close> is called with.\<close>

record queue_job =
  jobName :: string
  jobData :: job_data
  jobId :: string
  priority :: "nat option"

type_synonym payload = "(string \<times> bool) list"

definition mosvet :: "int \<Rightarrow> string" where
  "mosvet n = ''mosvet_'' @ show_int n"

text \<open>\<^verbatim>\<open>for (const pot of potNumbers) if (pot >= 1 && pot <= 5) updates[`mosvet_${pot + 2}`] = true\<close>\<close>

fun turn_on_valves :: "int list \<Rightarrow> payload \<Rightarrow> payload" where
  "turn_on_valves [] updates = updates"
| "turn_on_valves (pot # pots) updates =
     turn_on_valves pots
       (if 1 \<le> pot \<and> pot \<le> 5 then AList.update (mosvet (pot + 2)) True updates else updates)"

definition on_updates :: "job_data \<Rightarrow> payload" where
  "on_updates job =
     (let u0 = [];
          u1 = (if pompaAir job then AList.update ''mosvet_1'' True u0 else u0);
          u2 = (if pompaPupuk job then AList.update ''mosvet_2'' True u1 else u1)
      in turn_on_valves (potNumbers job) u2)"

text \<open>\<^verbatim>\<open>for (const key in updates) offUpdates[key] = false\<close>\<close>

fun turn_off_keys :: "string list \<Rightarrow> payload \<Rightarrow> payload" where
  "turn_off_keys [] offUpdates = offUpdates"
| "turn_off_keys (key # keys) offUpdates = turn_off_keys keys (AList.update key False offUpdates)"

definition off_updates :: "payload \<Rightarrow> payload" where
  "off_updates updates = turn_off_keys (map fst updates) []"

text \<open>The literal of the failure handler (lines 267--276).\<close>

definition safety_off :: payload where
  "safety_off =
     [(''mosvet_1'', False), (''mosvet_2'', False), (''mosvet_3'', False), (''mosvet_4'', False),
      (''mosvet_5'', False), (''mosvet_6'', False), (''mosvet_7'', False), (''mosvet_8'', False)]"

text \<open>
  The store and the clock are outside the program. The \<^verbatim>\<open>aktuator\<close> document is a map
  from channel key to flag, and an accepted \<^verbatim>\<open>update\<close> merges its payload into it. Every
  \<^verbatim>\<open>await\<close> lets time pass: the environment of one job run says whether each
  \<^verbatim>\<open>updateFirebaseSmart\<close> call resolves or throws (it throws when every transport it
  tries fails, see \<open>updateFirebaseSmart\<close> above) and how long each await takes
  (\<^verbatim>\<open>sleep(1000)\<close> takes 1000 ms plus a delay). \<^verbatim>\<open>Date.now()\<close> is the clock; it does not
  move between two awaits.
\<close>

record wait_tick =
  sensorRead :: "snapshot option reply"
  readTime :: nat
  sleepExtra :: nat

record exec_env =
  onWrite :: bool
  onTime :: nat
  ticks :: "nat \<Rightarrow> wait_tick"
  offWrite :: bool
  offTime :: nat
  historyTime :: nat
  safetyWrite :: bool
  safetyTime :: nat

text \<open>
  The world of the worker: the \<^verbatim>\<open>aktuator\<close> document and the log of the writes sent to
  it, the clock (\<^verbatim>\<open>Date.now()\<close>, in ms), and the module-level variables
  \<^verbatim>\<open>lastWateringTime\<close> (line 137), \<^verbatim>\<open>lastScheduleCheck\<close> (line 304, the keys that hold
  \<^verbatim>\<open>true\<close>, oldest first), the state client's counters and the two check counters.
\<close>

record world =
  aktuator :: "string \<rightharpoonup> bool"
  writes :: "(payload \<times> bool) list"
  clock :: int
  lastWateringTime :: "string \<rightharpoonup> int"
  lastScheduleCheck :: "string list"
  counters :: client
  checkCounter :: nat
  sensorCheckCounter :: nat

definition pot_key :: "int \<Rightarrow> string" where
  "pot_key pot = ''pot_'' @ show_int pot"

text \<open>
  One call \<^verbatim>\<open>await updateFirebaseSmart('aktuator', payload)\<close>: logged in \<open>writes\<close> with
  its outcome, merged into the document when the store accepts it.
\<close>

definition update_aktuator :: "payload \<Rightarrow> bool \<Rightarrow> nat \<Rightarrow> world \<Rightarrow> world" where
  "update_aktuator p ok t w =
     w\<lparr> aktuator := (if ok then aktuator w ++ map_of p else aktuator w),
        clock := clock w + int t,
        writes := writes w @ [(p, ok)] \<rparr>"

text \<open>The inner loop of the smart-mode poll (lines 195--207).\<close>

fun all_reached :: "snapshot \<Rightarrow> int list \<Rightarrow> int \<Rightarrow> bool \<Rightarrow> bool" where
  "all_reached currentSensorData [] targetSoil allReached = allReached"
| "all_reached currentSensorData (pot # pots) targetSoil allReached =
     all_reached currentSensorData pots targetSoil
       (if soil_value currentSensorData pot \<ge> targetSoil then allReached else False)"

text \<open>
  The smart-mode loop (lines 184--223); \<open>i\<close> counts iterations, \<open>now\<close> is the clock at
  the loop test. The result is \<^verbatim>\<open>allPotsReachedTarget\<close> and the clock at exit. A failed
  or null sensor read only skips the comparison.
\<close>

function smart_wait ::
  "(nat \<Rightarrow> wait_tick) \<Rightarrow> int list \<Rightarrow> int \<Rightarrow> int \<Rightarrow> int \<Rightarrow> nat \<Rightarrow> int \<Rightarrow> bool \<times> int" where
  "smart_wait tks pots targetSoil maxDuration startTime i now =
     (if now - startTime < maxDuration then
        (let elapsed = (now - startTime) div 1000;
             tk = tks i;
             afterRead = now + int (readTime tk);
             slept = 1000 + int (sleepExtra tk)
         in if elapsed mod 5 = 0 then
              (case sensorRead tk of
                 Reply (Some currentSensorData) \<Rightarrow>
                   if all_reached currentSensorData pots targetSoil True
                   then (True, afterRead)
                   else smart_wait tks pots targetSoil maxDuration startTime (Suc i) (afterRead + slept)
               | _ \<Rightarrow> smart_wait tks pots targetSoil maxDuration startTime (Suc i) (afterRead + slept))
            else smart_wait tks pots targetSoil maxDuration startTime (Suc i) (now + slept))
      else (False, now))"
  by pat_completeness auto
termination
  by (relation "measure (\<lambda>(tks, pots, targetSoil, maxDuration, startTime, i, now).
        nat (maxDuration - (now - startTime)))") auto

declare smart_wait.simps [simp del]

text \<open>The fixed-mode loop (lines 233--239).\<close>

function fixed_wait :: "(nat \<Rightarrow> wait_tick) \<Rightarrow> int \<Rightarrow> nat \<Rightarrow> int \<Rightarrow> int" where
  "fixed_wait tks endTime i now =
     (if now < endTime then fixed_wait tks endTime (Suc i) (now + 1000 + int (sleepExtra (tks i)))
      else now)"
  by pat_completeness auto
termination
  by (relation "measure (\<lambda>(tks, endTime, i, now). nat (endTime - now))") auto

declare fixed_wait.simps [simp del]

text \<open>
  \<^verbatim>\<open>if (smartMode && sensorData && sensorData.batasAtas)\<close>: a target of \<open>0\<close> is falsy.
\<close>

definition wait_phase :: "job_data \<Rightarrow> (nat \<Rightarrow> wait_tick) \<Rightarrow> int \<Rightarrow> int" where
  "wait_phase job tks startTime =
     (case (if smartMode job then sensorData job else None) of
        Some sd \<Rightarrow>
          if batasAtas sd \<noteq> 0
          then snd (smart_wait tks (potNumbers job) (batasAtas sd) (duration job * 1000) startTime 0 startTime)
          else fixed_wait tks (startTime + duration job * 1000) 0 startTime
      | None \<Rightarrow> fixed_wait tks (startTime + duration job * 1000) 0 startTime)"

text \<open>\<^verbatim>\<open>for (const pot of potNumbers) lastWateringTime[`pot_${pot}`] = Date.now()\<close>\<close>

fun mark_watered :: "int list \<Rightarrow> int \<Rightarrow> (string \<rightharpoonup> int) \<Rightarrow> (string \<rightharpoonup> int)" where
  "mark_watered [] now lwt = lwt"
| "mark_watered (pot # pots) now lwt = mark_watered pots now (lwt(pot_key pot \<mapsto> now))"

record job_result =
  success :: bool
  resultDuration :: int
  resultPots :: "int list"

text \<open>
  The \<^verbatim>\<open>catch\<close> block (lines 262--283): one attempt to write \<open>safety_off\<close>, whose own
  failure is logged and dropped, then the error is thrown again.
\<close>

definition safety_handler :: "exec_env \<Rightarrow> exn \<Rightarrow> world \<Rightarrow> world \<times> (exn + job_result)" where
  "safety_handler env e w = (update_aktuator safety_off (safetyWrite env) (safetyTime env) w, Inl e)"

text \<open>
  The \<^verbatim>\<open>try\<close> block. Only the two \<^verbatim>\<open>updateFirebaseSmart\<close> calls can throw in it:
  the sensor reads of the smart loop have their own \<^verbatim>\<open>catch\<close>, and \<^verbatim>\<open>logHistory\<close>
  catches everything it raises and writes under \<^verbatim>\<open>history/\<close> only.
\<close>

definition wateringWorker :: "world \<Rightarrow> job_data \<Rightarrow> exec_env \<Rightarrow> world \<times> (exn + job_result)" where
  "wateringWorker w job env =
     (let updates = on_updates job;
          w1 = update_aktuator updates (onWrite env) (onTime env) w
      in if \<not> onWrite env then safety_handler env (Error ''update failed'') w1
         else
           let w2 = w1\<lparr> clock := wait_phase job (ticks env) (clock w1) \<rparr>;
               offUpdates = off_updates updates;
               w3 = update_aktuator offUpdates (offWrite env) (offTime env) w2
           in if \<not> offWrite env then safety_handler env (Error ''update failed'') w3
              else
                let w4 = w3\<lparr> clock := clock w3 + int (historyTime env) \<rparr>;
                    w5 = w4\<lparr> lastWateringTime :=
                               mark_watered (potNumbers job) (clock w4) (lastWateringTime w4) \<rparr>
                in (w5, Inr \<lparr> success = True, resultDuration = duration job,
                              resultPots = potNumbers job \<rparr>))"


text \<open>
  The course of the smart-mode loop, written out for the statement of its exit.
  \<open>loop_head tks startTime k\<close> is the clock at the loop test of iteration \<open>k\<close> when no
  earlier iteration left the loop: an iteration whose elapsed whole seconds are a
  multiple of 5 awaits the sensor read, and every iteration sleeps.
  \<open>poll_hit\<close> says that iteration \<open>k\<close> polls the sensor, gets data and finds every
  targeted pot at or above the target.
\<close>

primrec loop_head :: "(nat \<Rightarrow> wait_tick) \<Rightarrow> int \<Rightarrow> nat \<Rightarrow> int" where
  "loop_head tks startTime 0 = startTime"
| "loop_head tks startTime (Suc k) =
     loop_head tks startTime k
       + (if ((loop_head tks startTime k - startTime) div 1000) mod 5 = 0
          then int (readTime (tks k)) else 0)
       + 1000 + int (sleepExtra (tks k))"

definition poll_hit :: "(nat \<Rightarrow> wait_tick) \<Rightarrow> int list \<Rightarrow> int \<Rightarrow> int \<Rightarrow> nat \<Rightarrow> bool" where
  "poll_hit tks pots targetSoil startTime k \<longleftrightarrow>
     ((loop_head tks startTime k - startTime) div 1000) mod 5 = 0 \<and>
     (case sensorRead (tks k) of
        Reply (Some d) \<Rightarrow> list_all (\<lambda>p. targetSoil \<le> soil_value d p) pots
      | _ \<Rightarrow> False)"

text \<open>
  Iteration \<open>k\<close> is the first, from iteration \<open>i\<close> on, at whose loop test the deadline has
  passed or whose poll finds all pots at the target.
\<close>

definition exits_at ::
  "(nat \<Rightarrow> wait_tick) \<Rightarrow> int list \<Rightarrow> int \<Rightarrow> int \<Rightarrow> int \<Rightarrow> nat \<Rightarrow> nat \<Rightarrow> bool" where
  "exits_at tks pots targetSoil maxDuration startTime i k \<longleftrightarrow>
     i \<le> k \<and>
     (\<forall>j. i \<le> j \<and> j < k \<longrightarrow>
            loop_head tks startTime j - startTime < maxDuration \<and>
            \<not> poll_hit tks pots targetSoil startTime j) \<and>
     (maxDuration \<le> loop_head tks startTime k - startTime \<or>
      poll_hit tks pots targetSoil startTime k)"

text \<open>
  What the wait returns when it leaves the loop in iteration \<open>k\<close>: at the loop test, with
  the target not reached, when the deadline has passed; otherwise right after the poll,
  with the target reached and without the sleep.
\<close>

definition exit_result :: "(nat \<Rightarrow> wait_tick) \<Rightarrow> int \<Rightarrow> int \<Rightarrow> nat \<Rightarrow> bool \<times> int" where
  "exit_result tks maxDuration startTime k =
     (if loop_head tks startTime k - startTime < maxDuration
      then (True, loop_head tks startTime k + int (readTime (tks k)))
      else (False, loop_head tks startTime k))"

text \<open>
  The channel set as the specification words it: the water pump is \<^verbatim>\<open>mosvet_1\<close>, the
  fertiliser pump \<^verbatim>\<open>mosvet_2\<close>, and pot \<open>N\<close> in \<open>1..5\<close> is \<^verbatim>\<open>mosvet_{N+2}\<close>.
\<close>

definition spec_channels :: "job_data \<Rightarrow> string set" where
  "spec_channels job =
     (if pompaAir job then {''mosvet_1''} else {}) \<union>
     (if pompaPupuk job then {''mosvet_2''} else {}) \<union>
     set (map (\<lambda>n. mosvet (n + 2)) (filter (\<lambda>n. 1 \<le> n \<and> n \<le> 5) (potNumbers job)))"

definition valve_keys :: "int list \<Rightarrow> string set" where
  "valve_keys pots = set (map (\<lambda>n. mosvet (n + 2)) (filter (\<lambda>n. 1 \<le> n \<and> n \<le> 5) pots))"

subsection \<open>Sample runs\<close>

definition ex_job :: job_data where
  "ex_job = \<lparr> jobType = ''waktu_jadwal_1'', potNumbers = [1, 2], pompaAir = True, pompaPupuk = False,
      duration = 2, scheduleId = ''jadwal_1_2026-11-02_08_00'', thresholdId = None,
      smartMode = False, sensorData = None \<rparr>"

definition ex_world :: world where
  "ex_world = \<lparr> aktuator = [''mosvet_1'' \<mapsto> False, ''mosvet_8'' \<mapsto> True], writes = [],
      clock = 1000, lastWateringTime = Map.empty, lastScheduleCheck = [],
      counters = fresh_client, checkCounter = 0, sensorCheckCounter = 0 \<rparr>"

definition ex_tick :: wait_tick where
  "ex_tick = \<lparr> sensorRead = Failed, readTime = 0, sleepExtra = 0 \<rparr>"

definition ex_env :: "bool \<Rightarrow> bool \<Rightarrow> bool \<Rightarrow> exec_env" where
  "ex_env onOk offOk safetyOk =
     \<lparr> onWrite = onOk, onTime = 10, ticks = (\<lambda>i. ex_tick), offWrite = offOk,
       offTime = 10, historyTime = 10, safetyWrite = safetyOk, safetyTime = 10 \<rparr>"

definition ex_smart_job :: job_data where
  "ex_smart_job = \<lparr> jobType = ''sensor_threshold'', potNumbers = [1], pompaAir = True,
      pompaPupuk = False, duration = 1, scheduleId = ''threshold_1-1000'',
      thresholdId = Some ''threshold_1'', smartMode = True,
      sensorData = Some \<lparr> batasBawah = 30, batasAtas = 70, mode = ''smart'', potValues = [(1, 10)] \<rparr> \<rparr>"

text \<open>A pot that stays at 10 percent; every sensor read takes 300 ms.\<close>

definition ex_dry_tick :: wait_tick where
  "ex_dry_tick = \<lparr> sensorRead = Reply (Some [(''soil_1'', JNum 10)]), readTime = 300, sleepExtra = 0 \<rparr>"

text \<open>A pot that reads 80 percent; every sensor read takes 300 ms.\<close>

definition ex_wet_tick :: wait_tick where
  "ex_wet_tick = \<lparr> sensorRead = Reply (Some [(''soil_1'', JNum 80)]), readTime = 300, sleepExtra = 0 \<rparr>"

section \<open>Configuration\<close>

text \<open>
  The document \<^verbatim>\<open>kontrol_1\<close>. Its top level holds the mode flags (\<^verbatim>\<open>waktu\<close>, here
  \<open>waktuEnabled\<close>, and \<^verbatim>\<open>otomatis\<close>), the legacy fields \<^verbatim>\<open>waktu_1\<close>, \<^verbatim>\<open>waktu_2\<close>,
  \<^verbatim>\<open>durasi_1\<close>, \<^verbatim>\<open>durasi_2\<close>, and under every other key (\<open>entries\<close>, in key order)
  either an object, read as a schedule or as a threshold according to the prefix of its
  key, or something that is not an object. A field that is absent is \<open>None\<close>.
\<close>

record node =
  aktif :: "bool option"
  waktu :: "string option"
  durasi :: "int option"
  pot_aktif :: "int list option"
  pompa_air :: "bool option"
  pompa_pupuk :: "bool option"
  batas_bawah :: "int option"
  batas_atas :: "int option"
  smart_mode :: "bool option"

datatype entry = NotObject | Object node

record kontrol =
  waktuEnabled :: bool
  otomatis :: bool
  waktu_1 :: "string option"
  waktu_2 :: "string option"
  durasi_1 :: "int option"
  durasi_2 :: "int option"
  entries :: "(string \<times> entry) list"

text \<open>\<^verbatim>\<open>x || d\<close> on a number: absent and \<open>0\<close> are falsy.\<close>

definition or_default :: "int option \<Rightarrow> int \<Rightarrow> int" where
  "or_default x d = (case x of None \<Rightarrow> d | Some n \<Rightarrow> if n = 0 then d else n)"

text \<open>
  What one poll cycle of an evaluator meets: the answers of the two transports to the
  configuration fetch and to the sensor read, the local time (\<^verbatim>\<open>new Date()\<close>),
  whether \<^verbatim>\<open>wateringQueue.add\<close> resolves for a job of a given name, and how long the
  awaits take.
\<close>

record date_time =
  fullYear :: nat
  monthIndex :: nat
  dayOfMonth :: nat
  hours :: nat
  minutes :: nat

record poll_env =
  sdkReply :: "kontrol option reply"
  restReply :: "kontrol option reply"
  dataSdk :: "snapshot option reply"
  dataRest :: "snapshot option reply"
  wallClock :: date_time
  addOk :: "string \<Rightarrow> bool"
  fetchTime :: nat
  dataTime :: nat
  addTime :: "string \<Rightarrow> nat"

section \<open>Schedule evaluator\<close>

text \<open>\<^verbatim>\<open>s.padStart(2, '0')\<close>\<close>

definition pad2 :: "string \<Rightarrow> string" where
  "pad2 s = replicate (2 - length s) CHR ''0'' @ s"

definition currentTime :: "date_time \<Rightarrow> string" where
  "currentTime now = pad2 (show_nat (hours now)) @ '':'' @ pad2 (show_nat (minutes now))"

definition dateKey :: "date_time \<Rightarrow> string" where
  "dateKey now =
     show_nat (fullYear now) @ ''-'' @ pad2 (show_nat (monthIndex now + 1)) @ ''-'' @
     pad2 (show_nat (dayOfMonth now))"

text \<open>\<^verbatim>\<open>currentTime.replace(':', '_')\<close> replaces the first colon only.\<close>

fun replace_colon :: "string \<Rightarrow> string" where
  "replace_colon [] = []"
| "replace_colon (c # cs) = (if c = CHR '':'' then CHR ''_'' # cs else c # replace_colon cs)"

definition job_key :: "string \<Rightarrow> string \<Rightarrow> string \<Rightarrow> string" where
  "job_key scheduleKey dk ct = scheduleKey @ ''_'' @ dk @ ''_'' @ replace_colon ct"

definition schedule_job :: "string \<Rightarrow> node \<Rightarrow> int list \<Rightarrow> string \<Rightarrow> queue_job" where
  "schedule_job scheduleKey schedule potAktif jobKey =
     \<lparr> jobName = scheduleKey,
       jobData = \<lparr> jobType = ''waktu_'' @ scheduleKey, potNumbers = potAktif,
                   pompaAir = (pompa_air schedule \<noteq> Some False),
                   pompaPupuk = (pompa_pupuk schedule = Some True),
                   duration = or_default (durasi schedule) 60,
                   scheduleId = jobKey, thresholdId = None, smartMode = False, sensorData = None \<rparr>,
       jobId = jobKey, priority = None \<rparr>"

definition legacy_job :: "string \<Rightarrow> string \<Rightarrow> int option \<Rightarrow> string \<Rightarrow> queue_job" where
  "legacy_job name ty dur scheduleKey =
     \<lparr> jobName = name,
       jobData = \<lparr> jobType = ty, potNumbers = [1, 2, 3, 4, 5], pompaAir = True, pompaPupuk = True,
                   duration = or_default dur 60,
                   scheduleId = scheduleKey, thresholdId = None, smartMode = False, sensorData = None \<rparr>,
       jobId = scheduleKey, priority = None \<rparr>"

text \<open>
  The trigger step, written three times in the source (lines 691--726, 733--759 and
  765--791): a key that is in \<^verbatim>\<open>lastScheduleCheck\<close> is skipped; otherwise the job is
  added to the queue and, only when the add resolves, the key is recorded. A failed add
  is caught on the spot.
\<close>

definition trigger_once :: "poll_env \<Rightarrow> queue_job \<Rightarrow> world \<times> queue_job list \<Rightarrow> world \<times> queue_job list" where
  "trigger_once env job st =
     (case st of (w, out) \<Rightarrow>
        if jobId job \<in> set (lastScheduleCheck w) then (w, out)
        else
          let w1 = w\<lparr> clock := clock w + int (addTime env (jobName job)) \<rparr>
          in if addOk env (jobName job)
             then (w1\<lparr> lastScheduleCheck := lastScheduleCheck w1 @ [jobId job] \<rparr>, out @ [job])
             else (w1, out))"

text \<open>The loop over \<^verbatim>\<open>allSchedules\<close> (lines 655--727).\<close>

fun check_schedules ::
  "poll_env \<Rightarrow> kontrol \<Rightarrow> string \<Rightarrow> string \<Rightarrow> string list \<Rightarrow> world \<times> queue_job list
   \<Rightarrow> world \<times> queue_job list" where
  "check_schedules env cfg dk ct [] st = st"
| "check_schedules env cfg dk ct (scheduleKey # keys) st =
     check_schedules env cfg dk ct keys
       (case map_of (entries cfg) scheduleKey of
          Some (Object schedule) \<Rightarrow>
            if aktif schedule = Some False then st
            else if waktu schedule = None \<or> waktu schedule = Some [] \<or> waktu schedule \<noteq> Some ct
            then st
            else
              let potAktif = (case pot_aktif schedule of None \<Rightarrow> [] | Some pots \<Rightarrow> pots)
              in if potAktif = [] then st
                 else trigger_once env
                        (schedule_job scheduleKey schedule potAktif (job_key scheduleKey dk ct)) st
        | _ \<Rightarrow> st)"

definition legacy_key :: "string \<Rightarrow> string \<Rightarrow> string \<Rightarrow> string" where
  "legacy_key n dk ct = ''legacy_jadwal_'' @ n @ ''_'' @ dk @ ''_'' @ replace_colon ct"

definition check_legacy ::
  "poll_env \<Rightarrow> string option \<Rightarrow> int option \<Rightarrow> string \<Rightarrow> string \<Rightarrow> string \<Rightarrow> string \<Rightarrow> string
   \<Rightarrow> world \<times> queue_job list \<Rightarrow> world \<times> queue_job list" where
  "check_legacy env w_n d_n n name ty dk ct st =
     (if w_n \<noteq> None \<and> w_n \<noteq> Some [] \<and> w_n = Some ct
      then trigger_once env (legacy_job name ty d_n (legacy_key n dk ct)) st
      else st)"

text \<open>
  The part of \<^verbatim>\<open>checkScheduledWatering\<close> that follows the configuration fetch (lines
  603--799): nothing to do when the configuration is \<^verbatim>\<open>null\<close> or time mode is off;
  otherwise the named schedules, the two legacy slots, and at the end the deletion of
  every ledger key that does not contain today's date key.
\<close>

definition match_schedules :: "poll_env \<Rightarrow> kontrol option \<Rightarrow> world \<Rightarrow> world \<times> queue_job list" where
  "match_schedules env kontrolConfig w1 =
     (case kontrolConfig of
        None \<Rightarrow> (w1, [])
      | Some cfg \<Rightarrow>
          if \<not> waktuEnabled cfg then (w1, [])
          else
            let ct = currentTime (wallClock env);
                dk = dateKey (wallClock env);
                allSchedules = filter (prefix ''jadwal_'') (map fst (entries cfg));
                st1 = check_schedules env cfg dk ct allSchedules (w1, []);
                st2 = check_legacy env (waktu_1 cfg) (durasi_1 cfg)
                        ''1'' ''schedule-1'' ''waktu_jadwal_1'' dk ct st1;
                st3 = check_legacy env (waktu_2 cfg) (durasi_2 cfg)
                        ''2'' ''schedule-2'' ''waktu_jadwal_2'' dk ct st2
            in (case st3 of (w4, out) \<Rightarrow>
                  (w4\<lparr> lastScheduleCheck := filter (sublist dk) (lastScheduleCheck w4) \<rparr>, out)))"

text \<open>
  \<^verbatim>\<open>checkScheduledWatering\<close> (lines 593--815). The whole body is inside one \<^verbatim>\<open>try\<close>
  whose \<^verbatim>\<open>catch\<close> logs and returns; the only call in it that can throw without being
  caught earlier is the configuration fetch. The result is the new world, the jobs
  added to the queue, and the error that leaves the function, of which there is none.
\<close>

definition checkScheduledWatering :: "world \<Rightarrow> poll_env \<Rightarrow> world \<times> queue_job list \<times> exn option" where
  "checkScheduledWatering w env =
     (let w0 = w\<lparr> checkCounter := checkCounter w + 1 \<rparr>
      in case fetchKontrolSmart (counters w0) (sdkReply env) (restReply env) of
           (c', used, r) \<Rightarrow>
             let w1 = w0\<lparr> counters := c', clock := clock w0 + int (fetchTime env) \<rparr>
             in (case r of
                   Inl e \<Rightarrow> (w1, [], None)
                 | Inr kontrolConfig \<Rightarrow>
                     (case match_schedules env kontrolConfig w1 of (w', out) \<Rightarrow> (w', out, None))))"

text \<open>Successive poll cycles, with all the jobs they add.\<close>

fun run_schedule :: "world \<Rightarrow> poll_env list \<Rightarrow> world \<times> queue_job list" where
  "run_schedule w [] = (w, [])"
| "run_schedule w (env # envs) =
     (case checkScheduledWatering w env of
        (w1, jobs, escaped) \<Rightarrow>
          (case run_schedule w1 envs of (w2, later) \<Rightarrow> (w2, jobs @ later)))"

subsection \<open>Sample schedule\<close>

definition ex_node :: node where
  "ex_node = \<lparr> aktif = Some True, waktu = Some ''08:00'', durasi = Some 60,
     pot_aktif = Some [1, 2, 3], pompa_air = None, pompa_pupuk = None, batas_bawah = None,
     batas_atas = None, smart_mode = None \<rparr>"

definition ex_kontrol :: kontrol where
  "ex_kontrol = \<lparr> waktuEnabled = True, otomatis = False, waktu_1 = None, waktu_2 = None,
     durasi_1 = None, durasi_2 = None, entries = [(''jadwal_1'', Object ex_node)] \<rparr>"

definition ex_morning :: date_time where
  "ex_morning = \<lparr> fullYear = 2026, monthIndex = 10, dayOfMonth = 2, hours = 8, minutes = 0 \<rparr>"

definition ex_poll :: "kontrol option reply \<Rightarrow> kontrol option reply \<Rightarrow> poll_env" where
  "ex_poll sdk rest =
     \<lparr> sdkReply = sdk, restReply = rest, dataSdk = Failed, dataRest = Failed,
       wallClock = ex_morning,
       addOk = (\<lambda>name. True), fetchTime = 100, dataTime = 100, addTime = (\<lambda>name. 20) \<rparr>"

text \<open>Three cycles within the minute 08:00; in the second the store is unreachable.\<close>

definition ex_ticks :: "poll_env list" where
  "ex_ticks = [ex_poll (Reply (Some ex_kontrol)) Failed, ex_poll Failed Failed,
               ex_poll (Reply (Some ex_kontrol)) Failed]"

subsection \<open>Invariants of a poll cycle\<close>

definition id_shape :: "string \<Rightarrow> string \<Rightarrow> queue_job \<Rightarrow> bool" where
  "id_shape dk ct j \<longleftrightarrow>
     jobId j = job_key (jobName j) dk ct \<or>
     jobName j = ''schedule-1'' \<and> jobId j = legacy_key ''1'' dk ct \<or>
     jobName j = ''schedule-2'' \<and> jobId j = legacy_key ''2'' dk ct"

definition tick_inv :: "string list \<Rightarrow> string \<Rightarrow> string \<Rightarrow> world \<times> queue_job list \<Rightarrow> bool" where
  "tick_inv L0 dk ct st =
     (case st of (w, out) \<Rightarrow>
        distinct (map jobId out) \<and>
        jobId ` set out \<subseteq> set (lastScheduleCheck w) \<and>
        jobId ` set out \<inter> set L0 = {} \<and>
        set L0 \<subseteq> set (lastScheduleCheck w) \<and>
        (\<forall>j \<in> set out. id_shape dk ct j))"

definition tick_post :: "string \<Rightarrow> string \<Rightarrow> world \<Rightarrow> world \<Rightarrow> queue_job list \<Rightarrow> bool" where
  "tick_post dk ct w w' out =
     (distinct (map jobId out) \<and>
      jobId ` set out \<subseteq> set (lastScheduleCheck w') \<and>
      jobId ` set out \<inter> set (lastScheduleCheck w) = {} \<and>
      {k \<in> set (lastScheduleCheck w). sublist dk k} \<subseteq> set (lastScheduleCheck w') \<and>
      (\<forall>j \<in> set out. sublist dk (jobId j)) \<and>
      (\<forall>j \<in> set out. id_shape dk ct j))"

definition same_ledger :: "world \<times> queue_job list \<Rightarrow> world \<times> queue_job list \<Rightarrow> bool" where
  "same_ledger a b \<longleftrightarrow> snd a = snd b \<and> lastScheduleCheck (fst a) = lastScheduleCheck (fst b)"

section \<open>Threshold evaluator\<close>

text \<open>\<^verbatim>\<open>config.worker.sensorDebounce\<close> (line 67), in ms.\<close>

definition sensorDebounce :: int where
  "sensorDebounce = 120000"

text \<open>
  \<^verbatim>\<open>lastTime && Date.now() - lastTime < config.worker.sensorDebounce\<close> (line 939); a
  missing entry and a time of \<open>0\<close> are falsy.
\<close>

definition cooling :: "(string \<rightharpoonup> int) \<Rightarrow> int \<Rightarrow> int \<Rightarrow> bool" where
  "cooling lwt now potNumber =
     (case lwt (pot_key potNumber) of
        None \<Rightarrow> False
      | Some lastTime \<Rightarrow> lastTime \<noteq> 0 \<and> now - lastTime < sensorDebounce)"

text \<open>
  The loop over \<^verbatim>\<open>potAktif\<close> (lines 913--951); the accumulator is
  \<^verbatim>\<open>potsNeedWatering\<close> with \<^verbatim>\<open>potDetails\<close>; \<open>snap\<close> is the sensor snapshot
  (\<^verbatim>\<open>sensorData\<close> in the source), \<open>bawah\<close> and \<open>atas\<close> are \<^verbatim>\<open>batasBawah\<close> and
  \<^verbatim>\<open>batasAtas\<close>.
\<close>

fun check_pots ::
  "(string \<rightharpoonup> int) \<Rightarrow> int \<Rightarrow> snapshot \<Rightarrow> int \<Rightarrow> int \<Rightarrow> int list
   \<Rightarrow> int list \<times> (int \<times> int) list \<Rightarrow> int list \<times> (int \<times> int) list" where
  "check_pots lwt now snap bawah atas [] acc = acc"
| "check_pots lwt now snap bawah atas (potNumber # pots) acc =
     check_pots lwt now snap bawah atas pots
       (if potNumber < 1 \<or> potNumber > 5 then acc
        else
          let soilValue = soil_value snap potNumber
          in if soilValue \<ge> atas then acc
             else if soilValue < bawah then
               (if cooling lwt now potNumber then acc
                else (fst acc @ [potNumber], snd acc @ [(potNumber, soilValue)]))
             else acc)"

definition threshold_job :: "string \<Rightarrow> node \<Rightarrow> int list \<Rightarrow> (int \<times> int) list \<Rightarrow> int \<Rightarrow> queue_job" where
  "threshold_job thresholdKey threshold potsNeedWatering potDetails now =
     (let smart = (smart_mode threshold = Some True);
          jid = thresholdKey @ ''-'' @ show_int now
      in \<lparr> jobName = thresholdKey,
            jobData = \<lparr> jobType = ''sensor_threshold'', potNumbers = potsNeedWatering,
                        pompaAir = (pompa_air threshold = Some True),
                        pompaPupuk = (pompa_pupuk threshold = Some True),
                        duration = or_default (durasi threshold) 600,
                        scheduleId = jid, thresholdId = Some thresholdKey, smartMode = smart,
                        sensorData = Some \<lparr> batasBawah = or_default (batas_bawah threshold) 30,
                                            batasAtas = or_default (batas_atas threshold) 70,
                                            mode = (if smart then ''smart'' else ''fixed''),
                                            potValues = potDetails \<rparr> \<rparr>,
            jobId = jid, priority = Some 1 \<rparr>)"

text \<open>
  The body of the loop over \<^verbatim>\<open>allThresholds\<close> (lines 889--993) for one key. The result
  is the new world and the calls of \<^verbatim>\<open>wateringQueue.add\<close> it made, each with the clock
  at the call, the job, and whether the add resolved. The add is not inside a
  \<^verbatim>\<open>try\<close> of its own: when it throws, the cooldown times are not written and the
  error leaves the loop.
\<close>

type_synonym add_call = "int \<times> queue_job \<times> bool"

definition process_threshold ::
  "poll_env \<Rightarrow> snapshot \<Rightarrow> string \<Rightarrow> entry option \<Rightarrow> world \<Rightarrow> world \<times> add_call list" where
  "process_threshold env snap thresholdKey threshold w =
     (case threshold of
        Some (Object thr) \<Rightarrow>
          if aktif thr \<noteq> Some True then (w, [])
          else
            let bawah = or_default (batas_bawah thr) 30;
                atas = or_default (batas_atas thr) 70;
                potAktif = (case pot_aktif thr of None \<Rightarrow> [] | Some pots \<Rightarrow> pots);
                found = check_pots (lastWateringTime w) (clock w) snap bawah atas
                          potAktif ([], []);
                potsNeedWatering = fst found;
                potDetails = snd found
            in if potsNeedWatering = [] then (w, [])
               else
                 let job = threshold_job thresholdKey thr potsNeedWatering potDetails (clock w);
                     w1 = w\<lparr> clock := clock w + int (addTime env thresholdKey) \<rparr>
                 in if addOk env thresholdKey
                    then (w1\<lparr> lastWateringTime :=
                                mark_watered potsNeedWatering (clock w1) (lastWateringTime w1) \<rparr>,
                          [(clock w, job, True)])
                    else (w1, [(clock w, job, False)])
      | _ \<Rightarrow> (w, []))"

fun process_thresholds ::
  "poll_env \<Rightarrow> snapshot \<Rightarrow> kontrol \<Rightarrow> string list \<Rightarrow> world \<Rightarrow> world \<times> add_call list" where
  "process_thresholds env snap cfg [] w = (w, [])"
| "process_thresholds env snap cfg (thresholdKey # keys) w =
     (case process_threshold env snap thresholdKey (map_of (entries cfg) thresholdKey) w of
        (w1, calls) \<Rightarrow>
          if \<exists>c \<in> set calls. \<not> snd (snd c) then (w1, calls)
          else (case process_thresholds env snap cfg keys w1 of
                  (w2, later) \<Rightarrow> (w2, calls @ later)))"

text \<open>
  \<^verbatim>\<open>checkSensorThresholds\<close> (lines 847--998), for an invocation during whose awaits
  nothing else touches the world; its awaits take the times the environment gives.
  Every error is caught by the \<^verbatim>\<open>catch\<close> at the end, which only logs. Invocations
  that overlap are the subject of the next subsection.
\<close>

definition checkSensorThresholds :: "world \<Rightarrow> poll_env \<Rightarrow> world \<times> add_call list" where
  "checkSensorThresholds w env =
     (let w0 = w\<lparr> sensorCheckCounter := sensorCheckCounter w + 1,
                  clock := clock w + int (dataTime env) \<rparr>
      in case snd (readFirebaseSmart (counters w0) (dataSdk env) (dataRest env)) of
           Inl e \<Rightarrow> (w0, [])
         | Inr None \<Rightarrow> (w0, [])
         | Inr (Some snap) \<Rightarrow>
             (case fetchKontrolSmart (counters w0) (sdkReply env) (restReply env) of
                (c', used, r) \<Rightarrow>
                  let w1 = w0\<lparr> counters := c', clock := clock w0 + int (fetchTime env) \<rparr>
                  in (case r of
                        Inl e \<Rightarrow> (w1, [])
                      | Inr None \<Rightarrow> (w1, [])
                      | Inr (Some kontrolConfig) \<Rightarrow>
                          if \<not> otomatis kontrolConfig then (w1, [])
                          else
                            let allThresholds =
                                  filter (prefix ''threshold_'') (map fst (entries kontrolConfig))
                            in if allThresholds = [] then (w1, [])
                               else process_thresholds env snap kontrolConfig allThresholds w1)))"

text \<open>The jobs that entered the queue: the calls whose add resolved.\<close>

definition enqueued :: "add_call list \<Rightarrow> (int \<times> queue_job) list" where
  "enqueued calls = map (\<lambda>c. (fst c, fst (snd c))) (filter (\<lambda>c. snd (snd c)) calls)"

subsection \<open>Invocations that overlap\<close>

text \<open>
  \<^verbatim>\<open>checkSensorThresholds\<close> is an \<^verbatim>\<open>async\<close> function, started by the 30-second timer
  (line 1012), once after startup (line 1021) and by the listener on \<^verbatim>\<open>data\<close> (line
  1033). Nothing keeps a second invocation from starting while the first waits at an
  \<^verbatim>\<open>await\<close>; between two awaits an invocation runs alone. An invocation in progress
  waits at one of its awaits, with what it holds in its local variables:

    \<^item> the sensor read over the SDK (line 576) or over REST (lines 562 and 580);
    \<^item> the configuration fetch over the SDK (line 395) or over REST, called directly
      (line 375, \<open>True\<close>) or as the fallback (line 405, \<open>False\<close>), with the sensor
      snapshot read before;
    \<^item> the \<^verbatim>\<open>wateringQueue.add\<close> of one entry (line 962), with the entry's key,
      \<^verbatim>\<open>potsNeedWatering\<close>, the clock at the call, the job and the keys still to be
      processed.
\<close>

datatype invocation =
    AwaitDataSdk poll_env
  | AwaitDataRest poll_env
  | AwaitKontrolSdk poll_env snapshot
  | AwaitKontrolRest poll_env snapshot bool
  | AwaitAdd poll_env snapshot kontrol string "int list" int queue_job "string list"

text \<open>
  \<^verbatim>\<open>readFirebaseSmart\<close> and \<^verbatim>\<open>fetchKontrolSmart\<close> up to their first await: the failure
  counter is tested when the call is made (lines 558 and 369).
\<close>

definition call_read :: "poll_env \<Rightarrow> world \<Rightarrow> invocation" where
  "call_read env w =
     (if consecutiveFirebaseErrors (counters w) \<ge> SKIP_SDK_THRESHOLD
      then AwaitDataRest env else AwaitDataSdk env)"

definition call_fetch :: "poll_env \<Rightarrow> snapshot \<Rightarrow> world \<Rightarrow> invocation" where
  "call_fetch env snap w =
     (if consecutiveFirebaseErrors (counters w) \<ge> SKIP_SDK_THRESHOLD
      then AwaitKontrolRest env snap True else AwaitKontrolSdk env snap)"

text \<open>
  The loop over \<^verbatim>\<open>allThresholds\<close> from one point on, up to its next call of
  \<^verbatim>\<open>wateringQueue.add\<close> (lines 888--962), or to its end. Up to the call the loop only
  reads the world.
\<close>

fun next_add ::
  "poll_env \<Rightarrow> snapshot \<Rightarrow> kontrol \<Rightarrow> string list \<Rightarrow> world \<Rightarrow> invocation option" where
  "next_add env snap cfg [] w = None"
| "next_add env snap cfg (thresholdKey # keys) w =
     (case map_of (entries cfg) thresholdKey of
        Some (Object thr) \<Rightarrow>
          if aktif thr \<noteq> Some True then next_add env snap cfg keys w
          else
            let bawah = or_default (batas_bawah thr) 30;
                atas = or_default (batas_atas thr) 70;
                potAktif = (case pot_aktif thr of None \<Rightarrow> [] | Some pots \<Rightarrow> pots);
                found = check_pots (lastWateringTime w) (clock w) snap bawah atas potAktif ([], []);
                potsNeedWatering = fst found;
                potDetails = snd found
            in if potsNeedWatering = [] then next_add env snap cfg keys w
               else Some (AwaitAdd env snap cfg thresholdKey potsNeedWatering (clock w)
                            (threshold_job thresholdKey thr potsNeedWatering potDetails (clock w))
                            keys)
      | _ \<Rightarrow> next_add env snap cfg keys w)"

text \<open>
  What follows the sensor read (lines 854--860) and the configuration fetch (lines
  862--888) when they have returned a value.
\<close>

definition got_data ::
  "poll_env \<Rightarrow> snapshot option \<Rightarrow> world \<Rightarrow> world \<times> invocation option \<times> add_call list" where
  "got_data env v w =
     (case v of
        None \<Rightarrow> (w, None, [])
      | Some snap \<Rightarrow> (w, Some (call_fetch env snap w), []))"

definition got_kontrol ::
  "poll_env \<Rightarrow> snapshot \<Rightarrow> kontrol option \<Rightarrow> world
   \<Rightarrow> world \<times> invocation option \<times> add_call list" where
  "got_kontrol env snap v w =
     (case v of
        None \<Rightarrow> (w, None, [])
      | Some kontrolConfig \<Rightarrow>
          if \<not> otomatis kontrolConfig then (w, None, [])
          else (w,
                next_add env snap kontrolConfig
                  (filter (prefix ''threshold_'') (map fst (entries kontrolConfig))) w,
                []))"

text \<open>
  An invocation goes on when its await is over, and runs to its next await or to its
  end. A transport of the sensor read that fails leads to the next transport or, for
  the last one, to the \<^verbatim>\<open>catch\<close> at the end; the configuration fetch also writes the
  counters (lines 377--383, 396--398, 402 and 406). After the add has resolved the
  invocation stamps the pots with the clock of that moment (lines 990--992) and goes on
  with the next keys; an add that throws ends the invocation. The result is the new
  world, what the invocation has become, if it has not ended, and the add call that has
  just been answered.
\<close>

fun resume :: "world \<Rightarrow> invocation \<Rightarrow> world \<times> invocation option \<times> add_call list" where
  "resume w (AwaitDataSdk env) =
     (case dataSdk env of
        Reply v \<Rightarrow> got_data env v w
      | Failed \<Rightarrow> (w, Some (AwaitDataRest env), []))"
| "resume w (AwaitDataRest env) =
     (case dataRest env of
        Reply v \<Rightarrow> got_data env v w
      | Failed \<Rightarrow> (w, None, []))"
| "resume w (AwaitKontrolSdk env snap) =
     (let c = counters w
      in case sdkReply env of
           Reply v \<Rightarrow>
             got_kontrol env snap v
               (w\<lparr> counters := c\<lparr> consecutiveFirebaseErrors := 0, restFallbackCount := 0,
                                   sdkSuccessCount := sdkSuccessCount c + 1 \<rparr> \<rparr>)
         | Failed \<Rightarrow>
             (w\<lparr> counters := c\<lparr> consecutiveFirebaseErrors := consecutiveFirebaseErrors c + 1 \<rparr> \<rparr>,
              Some (AwaitKontrolRest env snap False), []))"
| "resume w (AwaitKontrolRest env snap direct) =
     (let c = counters w
      in case restReply env of
           Reply v \<Rightarrow>
             let c1 = c\<lparr> restFallbackCount := restFallbackCount c + 1 \<rparr>;
                 c2 = (if direct \<and> restFallbackCount c1 \<ge> RESET_THRESHOLD_AFTER
                       then c1\<lparr> consecutiveFirebaseErrors := 0, restFallbackCount := 0 \<rparr>
                       else c1)
             in got_kontrol env snap v (w\<lparr> counters := c2 \<rparr>)
         | Failed \<Rightarrow> (w, None, []))"
| "resume w (AwaitAdd env snap cfg thresholdKey pots t job keys) =
     (if addOk env thresholdKey
      then
        let w1 = w\<lparr> lastWateringTime := mark_watered pots (clock w) (lastWateringTime w) \<rparr>
        in (w1, next_add env snap cfg keys w1, [(t, job, True)])
      else (w, None, [(t, job, False)]))"

text \<open>
  What happens over the life of the process, as far as the cooldown times are concerned:
  an invocation starts (line 848) and makes its sensor read, the await of the \<open>i\<close>-th
  invocation started is over, a job of the executor reaches its end and stamps its pots
  (lines 256--258), or time passes. The awaits take the time that passes between these
  events.
\<close>

datatype event = Start poll_env | Resume nat | JobEnds "int list" | Elapse nat

fun run_worker ::
  "world \<times> invocation option list \<Rightarrow> event list
   \<Rightarrow> (world \<times> invocation option list) \<times> add_call list" where
  "run_worker st [] = (st, [])"
| "run_worker (w, pool) (Start env # evs) =
     (let w1 = w\<lparr> sensorCheckCounter := sensorCheckCounter w + 1 \<rparr>
      in run_worker (w1, pool @ [Some (call_read env w1)]) evs)"
| "run_worker (w, pool) (Resume i # evs) =
     (if i < length pool
      then (case pool ! i of
              None \<Rightarrow> run_worker (w, pool) evs
            | Some waiting \<Rightarrow>
                (case resume w waiting of
                   (w1, waiting', calls) \<Rightarrow>
                     (case run_worker (w1, pool[i := waiting']) evs of
                        (st, later) \<Rightarrow> (st, calls @ later))))
      else run_worker (w, pool) evs)"
| "run_worker (w, pool) (JobEnds pots # evs) =
     run_worker (w\<lparr> lastWateringTime := mark_watered pots (clock w) (lastWateringTime w) \<rparr>,
                 pool) evs"
| "run_worker (w, pool) (Elapse n # evs) = run_worker (w\<lparr> clock := clock w + int n \<rparr>, pool) evs"

text \<open>
  The pots of an entry that need water, as the specification words it: an active pot
  (numbered 1 to 5) whose moisture is below the upper bound and below the lower bound
  and that is not cooling down.
\<close>

definition needs_water :: "(string \<rightharpoonup> int) \<Rightarrow> int \<Rightarrow> snapshot \<Rightarrow> int \<Rightarrow> int \<Rightarrow> int \<Rightarrow> bool" where
  "needs_water lwt now snap lower upper p \<longleftrightarrow>
     1 \<le> p \<and> p \<le> 5 \<and> soil_value snap p < upper \<and> soil_value snap p < lower \<and>
     \<not> cooling lwt now p"

subsection \<open>Sample thresholds\<close>

definition ex_threshold :: node where
  "ex_threshold = \<lparr> aktif = Some True, waktu = None, durasi = Some 300, pot_aktif = Some [1, 2],
     pompa_air = Some True, pompa_pupuk = None, batas_bawah = Some 30, batas_atas = Some 70,
     smart_mode = Some True \<rparr>"

definition ex_sensor_kontrol :: kontrol where
  "ex_sensor_kontrol = \<lparr> waktuEnabled = False, otomatis = True, waktu_1 = None, waktu_2 = None,
     durasi_1 = None, durasi_2 = None, entries = [(''threshold_1'', Object ex_threshold)] \<rparr>"

text \<open>Pot 1 reads 20 percent, pot 2 sends no number.\<close>

definition ex_snapshot :: snapshot where
  "ex_snapshot = [(''soil_1'', JNum 20), (''soil_2'', JStr ''n/a''), (''soil_3'', JNum 80)]"

definition ex_sensor_poll :: poll_env where
  "ex_sensor_poll =
     \<lparr> sdkReply = Reply (Some ex_sensor_kontrol), restReply = Failed,
       dataSdk = Reply (Some ex_snapshot), dataRest = Failed, wallClock = ex_morning,
       addOk = (\<lambda>name. True), fetchTime = 100, dataTime = 100, addTime = (\<lambda>name. 20) \<rparr>"

text \<open>The pots of an entry that need water in the world \<open>w\<close>, bounds defaulted as in the source.\<close>

definition entry_need :: "world \<Rightarrow> snapshot \<Rightarrow> node \<Rightarrow> int list" where
  "entry_need w snap thr =
     filter (needs_water (lastWateringTime w) (clock w) snap
               (or_default (batas_bawah thr) 30) (or_default (batas_atas thr) 70))
       (case pot_aktif thr of None \<Rightarrow> [] | Some pots \<Rightarrow> pots)"

subsection \<open>Invariants of an invocation that runs alone\<close>

definition shares_pot :: "int \<times> queue_job \<Rightarrow> int \<times> queue_job \<Rightarrow> bool" where
  "shares_pot x y \<longleftrightarrow>
     set (potNumbers (jobData (snd x))) \<inter> set (potNumbers (jobData (snd y))) \<noteq> {}"

text \<open>Jobs in the order they were enqueued: any later job that shares a pot comes a cooldown later.\<close>

fun separated :: "(int \<times> queue_job) list \<Rightarrow> bool" where
  "separated [] = True"
| "separated (x # xs) \<longleftrightarrow>
     (\<forall>y \<in> set xs. shares_pot x y \<longrightarrow> sensorDebounce \<le> fst y - fst x) \<and> separated xs"

text \<open>Every pot of an enqueued job has a cooldown time that is not before the enqueue.\<close>

definition cooled :: "world \<Rightarrow> (int \<times> queue_job) list \<Rightarrow> bool" where
  "cooled w out \<longleftrightarrow>
     0 < clock w \<and>
     (\<forall>x \<in> set out. 0 < fst x \<and> fst x \<le> clock w \<and>
        (\<forall>p \<in> set (potNumbers (jobData (snd x))).
           \<exists>lt. lastWateringTime w (pot_key p) = Some lt \<and> fst x \<le> lt))"

text \<open>The clock at the call and the pots of each job that entered the queue.\<close>

definition enqueue_pots :: "add_call list \<Rightarrow> (int \<times> int list) list" where
  "enqueue_pots calls = map (\<lambda>x. (fst x, potNumbers (jobData (snd x)))) (enqueued calls)"

text \<open>
  Two invocations, the second started by the listener 10 ms after the timer started the
  first. Each waits 100 ms for the sensor read, 100 ms for the configuration and 20 ms
  for the queue.
\<close>

definition ex_overlap :: "event list" where
  "ex_overlap =
     [Start ex_sensor_poll, Elapse 10, Start ex_sensor_poll,
      Elapse 90, Resume 0, Elapse 10, Resume 1,
      Elapse 90, Resume 0, Elapse 10, Resume 1,
      Elapse 10, Resume 0, Elapse 10, Resume 1]"

text \<open>The same two invocations, the second started when the first has returned.\<close>

definition ex_in_turn :: "event list" where
  "ex_in_turn =
     [Start ex_sensor_poll, Elapse 100, Resume 0, Elapse 100, Resume 0, Elapse 20, Resume 0,
      Start ex_sensor_poll, Elapse 100, Resume 1, Elapse 100, Resume 1, Elapse 20, Resume 1]"

section \<open>Properties of the state client\<close>

lemma fetch_skips_sdk:
  "SKIP_SDK_THRESHOLD \<le> consecutiveFirebaseErrors c \<Longrightarrow>
   fst (snd (fetchKontrolSmart c sdk rest)) = [REST]"
  by (simp add: fetchKontrolSmart_def Let_def split: reply.splits)

lemma other_operations_skip_sdk:
  "SKIP_SDK_THRESHOLD \<le> consecutiveFirebaseErrors c \<Longrightarrow>
   fst (updateFirebaseSmart c sdkOk restOk) = [REST] \<and>
   fst (setFirebaseSmart c sdkOk restOk) = [REST] \<and>
   fst (readFirebaseSmart c sdk rest) = [REST]"
  by (simp add: updateFirebaseSmart_def setFirebaseSmart_def readFirebaseSmart_def
      split: reply.splits)

lemma fetch_sdk_success_resets:
  "consecutiveFirebaseErrors c < SKIP_SDK_THRESHOLD \<Longrightarrow>
   consecutiveFirebaseErrors (fst (fetchKontrolSmart c (Reply v) rest)) = 0"
  by (simp add: fetchKontrolSmart_def)

lemma fetch_sdk_failure_counts:
  "consecutiveFirebaseErrors c < SKIP_SDK_THRESHOLD \<Longrightarrow>
   consecutiveFirebaseErrors (fst (fetchKontrolSmart c Failed rest)) = consecutiveFirebaseErrors c + 1"
  by (simp add: fetchKontrolSmart_def Let_def split: reply.splits)

text \<open>
  Claim C7, evaluated on the code. From fresh counters, three calls in which the SDK fails
  and the REST fallback answers bring the failure count to 3, and the fallback counter to
  3 as well: the REST-direct branch shares \<^verbatim>\<open>restFallbackCount\<close> with the fallback branch.
  So the reset comes after 47 REST-direct calls, not 50, and the 48th call of the streak
  tries the SDK again. When the REST fallback fails during the first three calls the
  counter starts at 0 and the reset does come after 50 direct calls.
\<close>

theorem sdk_retried_after_47_direct_calls:
  "(case run_fetches fresh_client (replicate 3 (Failed, Reply ()) @ replicate 47 (Failed, Reply ())) of
      (c, trace) \<Rightarrow>
        trace = replicate 3 [SDK, REST] @ replicate 47 [REST]
        \<and> consecutiveFirebaseErrors c = 0 \<and> restFallbackCount c = 0
        \<and> fst (snd (fetchKontrolSmart c Failed (Reply ()))) = [SDK, REST])
   \<and> (case run_fetches fresh_client (replicate 3 (Failed, Failed) @ replicate 49 (Failed, Reply ())) of
      (c, trace) \<Rightarrow>
        trace = replicate 3 [SDK, REST] @ replicate 49 [REST]
        \<and> consecutiveFirebaseErrors c = 3 \<and> restFallbackCount c = 49
        \<and> fst (snd (fetchKontrolSmart c Failed (Reply ()))) = [REST])"
  by code_simp

section \<open>Properties of the watering executor\<close>

subsection \<open>Payloads\<close>

lemma mosvet_3_7:
  "mosvet 3 = ''mosvet_3''" "mosvet 4 = ''mosvet_4''" "mosvet 5 = ''mosvet_5''"
  "mosvet 6 = ''mosvet_6''" "mosvet 7 = ''mosvet_7''"
  by code_simp+

lemma mosvet_valve:
  assumes "1 \<le> n" "n \<le> 5"
  shows "mosvet (n + 2) \<in> {''mosvet_3'', ''mosvet_4'', ''mosvet_5'', ''mosvet_6'', ''mosvet_7''}"
proof -
  from assms have "n = 1 \<or> n = 2 \<or> n = 3 \<or> n = 4 \<or> n = 5" by arith
  then show ?thesis using mosvet_3_7 by auto
qed

lemma map_of_turn_on_valves:
  "map_of (turn_on_valves pots u) k = (if k \<in> valve_keys pots then Some True else map_of u k)"
  by (induction pots arbitrary: u) (auto simp: update_conv' valve_keys_def)

lemma distinct_turn_on_valves:
  "distinct (map fst u) \<Longrightarrow> distinct (map fst (turn_on_valves pots u))"
  by (induction pots arbitrary: u) (auto simp: distinct_update)

lemma distinct_on_updates: "distinct (map fst (on_updates job))"
  by (simp add: on_updates_def Let_def distinct_turn_on_valves)

lemma map_of_on_updates:
  "map_of (on_updates job) k = (if k \<in> spec_channels job then Some True else None)"
  by (auto simp: on_updates_def Let_def map_of_turn_on_valves spec_channels_def valve_keys_def)

lemma keys_on_updates: "fst ` set (on_updates job) = spec_channels job"
proof -
  have "dom (map_of (on_updates job)) = spec_channels job"
    by (auto simp: dom_def map_of_on_updates)
  then show ?thesis by (simp add: dom_map_of_conv_image_fst)
qed

lemma keys_turn_off_keys:
  "distinct keys \<Longrightarrow> set keys \<inter> fst ` set acc = {} \<Longrightarrow>
   turn_off_keys keys acc = acc @ map (\<lambda>k. (k, False)) keys"
proof (induction keys arbitrary: acc)
  case Nil
  then show ?case by simp
next
  case (Cons k ks)
  have "AList.update k False acc = acc @ [(k, False)]" using Cons.prems(2)
    by (induction acc) auto
  then show ?case using Cons by (auto simp: dom_update)
qed

lemma off_updates_eq:
  "distinct (map fst u) \<Longrightarrow> off_updates u = map (\<lambda>kv. (fst kv, False)) u"
  by (simp add: off_updates_def keys_turn_off_keys comp_def)

lemma map_of_off_updates:
  assumes "distinct (map fst u)"
  shows "map_of (off_updates u) k = (if k \<in> fst ` set u then Some False else None)"
  unfolding off_updates_eq [OF assms] by (induction u) auto

lemma on_keys_subset_safety: "fst ` set (on_updates job) \<subseteq> fst ` set safety_off"
  unfolding keys_on_updates
  using mosvet_valve by (auto simp: spec_channels_def safety_off_def)

lemma map_of_safety_off: "k \<in> fst ` set safety_off \<Longrightarrow> map_of safety_off k = Some False"
  by (auto simp: safety_off_def)

subsection \<open>What one job run leaves behind\<close>

lemma snd_worker:
  "snd (wateringWorker w job env) =
     (if onWrite env \<and> offWrite env
      then Inr \<lparr> success = True, resultDuration = duration job, resultPots = potNumbers job \<rparr>
      else Inl (Error ''update failed''))"
  by (simp add: wateringWorker_def Let_def safety_handler_def)

lemma writes_worker:
  "writes (fst (wateringWorker w job env)) = writes w @
     (if \<not> onWrite env then [(on_updates job, False), (safety_off, safetyWrite env)]
      else if \<not> offWrite env
        then [(on_updates job, True), (off_updates (on_updates job), False),
              (safety_off, safetyWrite env)]
        else [(on_updates job, True), (off_updates (on_updates job), True)])"
  by (simp add: wateringWorker_def Let_def safety_handler_def update_aktuator_def)

lemma aktuator_worker:
  "aktuator (fst (wateringWorker w job env)) =
     (if \<not> onWrite env then (if safetyWrite env then aktuator w ++ map_of safety_off else aktuator w)
      else if \<not> offWrite env
        then (if safetyWrite env then aktuator w ++ map_of (on_updates job) ++ map_of safety_off
              else aktuator w ++ map_of (on_updates job))
        else aktuator w ++ map_of (on_updates job) ++ map_of (off_updates (on_updates job)))"
  by (simp add: wateringWorker_def Let_def safety_handler_def update_aktuator_def)

text \<open>
  Claim C9. When a job completes successfully it made exactly two writes to the
  \<^verbatim>\<open>aktuator\<close> document: the on-write, whose keys are the channels computed from
  \<^verbatim>\<open>pompaAir\<close>, \<^verbatim>\<open>pompaPupuk\<close> and the pots in \<open>1..5\<close> (\<open>spec_channels\<close>), all
  \<open>True\<close>, and the off-write, with the same keys in the same order, all \<open>False\<close>.
  Afterwards those channels are off and every other channel holds what it held before.
\<close>

theorem off_write_targets_on_channels:
  assumes "snd (wateringWorker w job env) = Inr r"
  shows "writes (fst (wateringWorker w job env)) =
           writes w @ [(on_updates job, True), (off_updates (on_updates job), True)]
       \<and> map fst (off_updates (on_updates job)) = map fst (on_updates job)
       \<and> (\<forall>k. map_of (on_updates job) k = (if k \<in> spec_channels job then Some True else None))
       \<and> (\<forall>k. map_of (off_updates (on_updates job)) k =
               (if k \<in> spec_channels job then Some False else None))
       \<and> (\<forall>k. aktuator (fst (wateringWorker w job env)) k =
               (if k \<in> spec_channels job then Some False else aktuator w k))"
proof -
  from assms have ok: "onWrite env" "offWrite env"
    by (auto simp: snd_worker split: if_splits)
  have off: "map_of (off_updates (on_updates job)) k =
               (if k \<in> spec_channels job then Some False else None)" for k
    using map_of_off_updates [OF distinct_on_updates, of job k] keys_on_updates by simp
  have "map fst (off_updates (on_updates job)) = map fst (on_updates job)"
    by (simp add: off_updates_eq [OF distinct_on_updates] comp_def)
  moreover have "aktuator (fst (wateringWorker w job env)) k =
               (if k \<in> spec_channels job then Some False else aktuator w k)" for k
    using ok by (simp add: aktuator_worker map_add_def off map_of_on_updates)
  ultimately show ?thesis using ok off by (simp add: writes_worker map_of_on_updates)
qed

theorem off_write_targets_on_channels_witness:
  "snd (wateringWorker ex_world ex_job (ex_env True True True)) =
      Inr \<lparr> success = True, resultDuration = 2, resultPots = [1, 2] \<rparr>
   \<and> aktuator (fst (wateringWorker ex_world ex_job (ex_env True True True))) ''mosvet_1'' = Some False
   \<and> aktuator (fst (wateringWorker ex_world ex_job (ex_env True True True))) ''mosvet_3'' = Some False
   \<and> aktuator (fst (wateringWorker ex_world ex_job (ex_env True True True))) ''mosvet_4'' = Some False
   \<and> aktuator (fst (wateringWorker ex_world ex_job (ex_env True True True))) ''mosvet_8'' = Some True"
proof -
  have h: "snd (wateringWorker ex_world ex_job (ex_env True True True)) =
      Inr \<lparr> success = True, resultDuration = 2, resultPots = [1, 2] \<rparr>"
    by (simp add: snd_worker ex_env_def ex_job_def)
  have m: "mosvet (1 + 2) = ''mosvet_3''" "mosvet (2 + 2) = ''mosvet_4''" by code_simp+
  show ?thesis
    using h off_write_targets_on_channels [OF h] m
    by (simp add: spec_channels_def ex_job_def ex_world_def)
qed

text \<open>
  Claim C1, as stated, fails: the write in the failure handler is itself a store call
  that can throw, and its error is logged and dropped. A job that turned \<^verbatim>\<open>mosvet_1\<close> on,
  whose off-write fails and whose safety write fails too, ends as failed with
  \<^verbatim>\<open>mosvet_1\<close> still on.
\<close>

theorem channels_left_on_counterexample:
  "isl (snd (wateringWorker ex_world ex_job (ex_env True False False)))
   \<and> aktuator ex_world ''mosvet_1'' = Some False
   \<and> map_of (on_updates ex_job) ''mosvet_1'' = Some True
   \<and> aktuator (fst (wateringWorker ex_world ex_job (ex_env True False False))) ''mosvet_1'' = Some True"
  by (simp add: snd_worker aktuator_worker map_of_on_updates spec_channels_def ex_env_def ex_job_def
      ex_world_def map_add_def)

text \<open>
  Claim C1, amended. A job that succeeds ends with the off-write, and every channel of
  its on-write is off. A job that fails ends with one attempt to write \<open>False\<close> to
  \<^verbatim>\<open>mosvet_1\<close> .. \<^verbatim>\<open>mosvet_8\<close>; when the store accepts that write, all eight channels,
  and with them every channel the job turned on, are off.
\<close>

theorem channels_off_after_job:
  "let run = wateringWorker w job env; w' = fst run in
     (\<not> isl (snd run) \<longrightarrow>
        last (writes w') = (off_updates (on_updates job), True) \<and>
        (\<forall>k \<in> fst ` set (on_updates job). aktuator w' k = Some False)) \<and>
     (isl (snd run) \<longrightarrow> last (writes w') = (safety_off, safetyWrite env)) \<and>
     (isl (snd run) \<and> safetyWrite env \<longrightarrow>
        (\<forall>k \<in> fst ` set safety_off. aktuator w' k = Some False) \<and>
        (\<forall>k \<in> fst ` set (on_updates job). aktuator w' k = Some False))"
proof -
  have off: "k \<in> fst ` set (on_updates job) \<Longrightarrow>
             map_of (off_updates (on_updates job)) k = Some False" for k
    using map_of_off_updates [OF distinct_on_updates, of job k] by simp
  have saf: "k \<in> fst ` set (on_updates job) \<Longrightarrow> map_of safety_off k = Some False" for k
    using on_keys_subset_safety [of job] map_of_safety_off [of k] by blast
  show ?thesis
    by (simp add: Let_def snd_worker writes_worker aktuator_worker map_add_def off saf
        map_of_safety_off)
qed

theorem channels_off_after_job_witness:
  "\<not> isl (snd (wateringWorker ex_world ex_job (ex_env True True True)))
   \<and> aktuator (fst (wateringWorker ex_world ex_job (ex_env True True True))) ''mosvet_1'' = Some False
   \<and> isl (snd (wateringWorker ex_world ex_job (ex_env True False True)))
   \<and> safetyWrite (ex_env True False True)
   \<and> aktuator (fst (wateringWorker ex_world ex_job (ex_env True False True))) ''mosvet_1'' = Some False
   \<and> aktuator (fst (wateringWorker ex_world ex_job (ex_env True False True))) ''mosvet_8'' = Some False"
proof -
  have ok: "\<not> isl (snd (wateringWorker ex_world ex_job (ex_env True True True)))"
    by (simp add: snd_worker ex_env_def)
  have failed: "isl (snd (wateringWorker ex_world ex_job (ex_env True False True)))"
    and safe: "safetyWrite (ex_env True False True)"
    by (simp_all add: snd_worker ex_env_def)
  have k1: "''mosvet_1'' \<in> fst ` set (on_updates ex_job)"
    by (simp add: on_updates_def ex_job_def Let_def image_iff)
  have k8: "''mosvet_8'' \<in> fst ` set safety_off"
    by (simp add: safety_off_def)
  show ?thesis
    using channels_off_after_job [of ex_world ex_job "ex_env True True True"]
      channels_off_after_job [of ex_world ex_job "ex_env True False True"]
      ok failed safe k1 k8
    by (auto simp: Let_def)
qed

subsection \<open>The smart-mode wait\<close>

lemma all_reached_iff:
  "all_reached d pots targetSoil acc \<longleftrightarrow> acc \<and> (\<forall>p \<in> set pots. targetSoil \<le> soil_value d p)"
  by (induction pots arbitrary: acc) auto

lemma smart_wait_exit:
  "smart_wait tks pots targetSoil maxDuration startTime i now = (reached, t) \<Longrightarrow>
   reached \<or> maxDuration \<le> t - startTime"
proof (induction tks pots targetSoil maxDuration startTime i now rule: smart_wait.induct)
  case (1 tks pots targetSoil maxDuration startTime i now)
  show ?case
    using "1.prems" "1.IH"
    by (subst (asm) smart_wait.simps)
       (auto simp: Let_def split: if_splits reply.splits option.splits)
qed

lemma smart_wait_reached:
  "smart_wait tks pots targetSoil maxDuration startTime i now = (True, t) \<Longrightarrow>
   \<exists>j d. sensorRead (tks j) = Reply (Some d) \<and> (\<forall>p \<in> set pots. targetSoil \<le> soil_value d p)"
proof (induction tks pots targetSoil maxDuration startTime i now rule: smart_wait.induct)
  case (1 tks pots targetSoil maxDuration startTime i now)
  show ?case
    using "1.prems" "1.IH"
    by (subst (asm) smart_wait.simps)
       (auto simp: Let_def all_reached_iff split: if_splits reply.splits option.splits)
qed

lemma smart_wait_overshoot:
  "\<forall>j. int (readTime (tks j)) + 1000 + int (sleepExtra (tks j)) \<le> B \<Longrightarrow>
   smart_wait tks pots targetSoil maxDuration startTime i now = (reached, t) \<Longrightarrow>
   t = now \<or> t < startTime + maxDuration + B"
proof (induction tks pots targetSoil maxDuration startTime i now rule: smart_wait.induct)
  case (1 tks pots targetSoil maxDuration startTime i now)
  have B: "int (readTime (tks i)) + 1000 + int (sleepExtra (tks i)) \<le> B"
    using "1.prems"(1) by blast
  have late:
    "now + int (readTime (tks i)) + (1000 + int (sleepExtra (tks i))) < startTime + maxDuration + B"
    "now + int (readTime (tks i)) < startTime + maxDuration + B"
    "now + (1000 + int (sleepExtra (tks i))) < startTime + maxDuration + B"
    if "now - startTime < maxDuration"
    using B that by linarith+
  note IH = "1.IH" [OF _ refl refl refl refl]
  from "1.prems"(2) show ?case
    apply (subst (asm) smart_wait.simps)
    apply (simp add: Let_def split: if_splits reply.splits option.splits)
    using IH late "1.prems"(1) apply auto
    done
qed

text \<open>
  Claim C4, as stated, fails: the deadline is only tested at the head of the loop, and an
  iteration that starts before it runs to its end. With a maximum of one second and
  sensor reads of 300 ms, the wait of a job whose pot never reaches the target ends
  1300 ms after it started.
\<close>

theorem smart_wait_overshoot_counterexample:
  "wait_phase ex_smart_job (\<lambda>i. ex_dry_tick) 0 = 1300
   \<and> \<not> (1300 - 0 \<le> duration ex_smart_job * 1000)"
  by (simp add: wait_phase_def ex_smart_job_def ex_dry_tick_def smart_wait.simps soil_value_def
      soil_key_def get_prop_def show_int_def show_nat.simps digit_char_def)

lemma smart_wait_step:
  "smart_wait tks pots targetSoil maxDuration startTime i (loop_head tks startTime i) =
     (if loop_head tks startTime i - startTime < maxDuration
      then if poll_hit tks pots targetSoil startTime i
           then (True, loop_head tks startTime i + int (readTime (tks i)))
           else smart_wait tks pots targetSoil maxDuration startTime (Suc i)
                  (loop_head tks startTime (Suc i))
      else (False, loop_head tks startTime i))"
  by (subst smart_wait.simps)
     (auto simp: Let_def poll_hit_def all_reached_iff list_all_iff add.assoc
       split: reply.splits option.splits)

lemma loop_head_Suc_ge: "loop_head tks startTime k + 1000 \<le> loop_head tks startTime (Suc k)"
  by simp

lemma smart_wait_first_exit:
  "\<exists>k. exits_at tks pots targetSoil maxDuration startTime i k \<and>
       smart_wait tks pots targetSoil maxDuration startTime i (loop_head tks startTime i) =
         exit_result tks maxDuration startTime k"
proof (induction "nat (maxDuration - (loop_head tks startTime i - startTime))" arbitrary: i
       rule: less_induct)
  case less
  let ?h = "loop_head tks startTime"
  note step = smart_wait_step [of tks pots targetSoil maxDuration startTime i]
  show ?case
  proof (cases "?h i - startTime < maxDuration \<and> \<not> poll_hit tks pots targetSoil startTime i")
    case False
    then show ?thesis using step
      by (intro exI [of _ i]) (auto simp: exits_at_def exit_result_def)
  next
    case True
    have "nat (maxDuration - (?h (Suc i) - startTime)) < nat (maxDuration - (?h i - startTime))"
      using True loop_head_Suc_ge [of tks startTime i] by linarith
    from less [OF this] obtain k where k: "exits_at tks pots targetSoil maxDuration startTime (Suc i) k"
      "smart_wait tks pots targetSoil maxDuration startTime (Suc i) (?h (Suc i)) =
         exit_result tks maxDuration startTime k"
      by blast
    have "exits_at tks pots targetSoil maxDuration startTime i k"
      using k(1) True unfolding exits_at_def
      by (metis Suc_leD Suc_leI le_neq_implies_less)
    then show ?thesis using k(2) step True by (intro exI [of _ k]) simp
  qed
qed

lemma exits_at_unique:
  assumes "exits_at tks pots targetSoil maxDuration startTime i k"
    and "exits_at tks pots targetSoil maxDuration startTime i k'"
  shows "k = k'"
proof (rule ccontr)
  assume "k \<noteq> k'"
  then consider "k < k'" | "k' < k" by linarith
  then show False
    using assms unfolding exits_at_def by cases (metis not_le)+
qed

lemma exit_late:
  assumes "exits_at tks pots targetSoil maxDuration startTime 0 k"
  shows "snd (exit_result tks maxDuration startTime k) = startTime \<or>
         snd (exit_result tks maxDuration startTime k) - startTime
           < maxDuration +
             (if fst (exit_result tks maxDuration startTime k) then int (readTime (tks k))
              else int (readTime (tks (k - 1))) + 1000 + int (sleepExtra (tks (k - 1))))"
proof (cases "loop_head tks startTime k - startTime < maxDuration")
  case True
  then show ?thesis by (simp add: exit_result_def)
next
  case False
  show ?thesis
  proof (cases k)
    case 0
    then show ?thesis using False by (simp add: exit_result_def)
  next
    case (Suc j)
    have "loop_head tks startTime j - startTime < maxDuration"
      using assms Suc unfolding exits_at_def by auto
    then show ?thesis using False Suc by (simp add: exit_result_def)
  qed
qed

text \<open>
  Claim C4, amended. The wait of a smart-mode job always ends (\<open>smart_wait\<close> is a total
  function: every iteration sleeps at least a second, so the time left to the deadline
  decreases), whether or not any pot ever reaches the target. It leaves the loop in the
  first iteration \<open>k\<close> at whose loop test \<open>duration * 1000\<close> ms have elapsed or whose sensor
  poll finds every targeted pot at or above the upper bound, and in no other: in the
  first case at the loop test, with the target not reached; in the second right after
  the poll, with the target reached. The wait ends less than one iteration after the
  deadline: after an exit at the loop test, by less than the sensor read and the sleep
  of the iteration before; after an exit at the target, by less than its last sensor
  read.
\<close>

theorem smart_wait_deadline:
  assumes "smartMode job" and "sensorData job = Some sd" and "batasAtas sd \<noteq> 0"
  shows "\<exists>k. exits_at tks (potNumbers job) (batasAtas sd) (duration job * 1000) startTime 0 k
           \<and> (\<forall>k'. exits_at tks (potNumbers job) (batasAtas sd) (duration job * 1000) startTime 0 k'
                    \<longrightarrow> k' = k)
           \<and> smart_wait tks (potNumbers job) (batasAtas sd) (duration job * 1000) startTime 0 startTime
               = exit_result tks (duration job * 1000) startTime k
           \<and> wait_phase job tks startTime = snd (exit_result tks (duration job * 1000) startTime k)
           \<and> (fst (exit_result tks (duration job * 1000) startTime k) \<or>
                duration job * 1000 \<le> snd (exit_result tks (duration job * 1000) startTime k) - startTime)
           \<and> (snd (exit_result tks (duration job * 1000) startTime k) = startTime \<or>
                snd (exit_result tks (duration job * 1000) startTime k) - startTime
                  < duration job * 1000 +
                    (if fst (exit_result tks (duration job * 1000) startTime k)
                     then int (readTime (tks k))
                     else int (readTime (tks (k - 1))) + 1000 + int (sleepExtra (tks (k - 1)))))"
proof -
  let ?pots = "potNumbers job" and ?target = "batasAtas sd" and ?max = "duration job * 1000"
  from smart_wait_first_exit [of tks ?pots ?target ?max startTime 0]
  obtain k where k: "exits_at tks ?pots ?target ?max startTime 0 k"
    and r: "smart_wait tks ?pots ?target ?max startTime 0 startTime = exit_result tks ?max startTime k"
    by auto
  have u: "\<forall>k'. exits_at tks ?pots ?target ?max startTime 0 k' \<longrightarrow> k' = k"
    using exits_at_unique [OF _ k] by blast
  have w: "wait_phase job tks startTime = snd (exit_result tks ?max startTime k)"
    using assms(1-3) r by (simp add: wait_phase_def)
  obtain reached t where rt: "exit_result tks ?max startTime k = (reached, t)"
    by (cases "exit_result tks ?max startTime k") auto
  have e: "reached \<or> ?max \<le> t - startTime"
    using smart_wait_exit [of tks ?pots ?target ?max startTime 0 startTime reached t] r rt by simp
  have e': "fst (exit_result tks ?max startTime k) \<or>
            ?max \<le> snd (exit_result tks ?max startTime k) - startTime"
    using e by (simp add: rt)
  note o' = exit_late [OF k]
  show ?thesis
    by (rule exI [of _ k]) (intro conjI k u r w e' o')
qed

lemma ex_soil_1: "soil_key 1 = ''soil_1''"
  by code_simp

theorem smart_wait_deadline_witness:
  "smartMode ex_smart_job
   \<and> exits_at (\<lambda>i. ex_dry_tick) [1] 70 1000 0 0 1
   \<and> smart_wait (\<lambda>i. ex_dry_tick) [1] 70 1000 0 0 0 = (False, 1300)
   \<and> wait_phase ex_smart_job (\<lambda>i. ex_dry_tick) 0 = 1300
   \<and> exits_at (\<lambda>i. ex_wet_tick) [1] 70 1000 0 0 0
   \<and> smart_wait (\<lambda>i. ex_wet_tick) [1] 70 1000 0 0 0 = (True, 300)
   \<and> wait_phase ex_smart_job (\<lambda>i. ex_wet_tick) 0 = 300"
proof -
  let ?sd = "\<lparr> batasBawah = 30, batasAtas = 70, mode = ''smart'', potValues = [(1, 10)] \<rparr>"
  let ?dry = "\<lambda>i::nat. ex_dry_tick" and ?wet = "\<lambda>i::nat. ex_wet_tick"
  have a1: "smartMode ex_smart_job" and a2: "sensorData ex_smart_job = Some ?sd"
    and a3: "batasAtas ?sd \<noteq> 0"
    by (simp_all add: ex_smart_job_def)
  have dry: "exits_at ?dry [1] 70 1000 0 0 1"
    by (simp add: exits_at_def poll_hit_def ex_dry_tick_def soil_value_def get_prop_def ex_soil_1)
  have wet: "exits_at ?wet [1] 70 1000 0 0 0"
    by (simp add: exits_at_def poll_hit_def ex_wet_tick_def soil_value_def get_prop_def ex_soil_1)
  have rd: "exit_result ?dry 1000 0 (Suc 0) = (False, 1300)"
    by (simp add: exit_result_def ex_dry_tick_def)
  have rw: "exit_result ?wet 1000 0 0 = (True, 300)"
    by (simp add: exit_result_def ex_wet_tick_def)
  have p: "potNumbers ex_smart_job = [1]" "batasAtas ?sd = 70" "duration ex_smart_job * 1000 = 1000"
    by (simp_all add: ex_smart_job_def)
  from smart_wait_deadline [OF a1 a2 a3, of ?dry 0, unfolded p]
  obtain k where k: "\<forall>k'. exits_at ?dry [1] 70 1000 0 0 k' \<longrightarrow> k' = k"
    "smart_wait ?dry [1] 70 1000 0 0 0 = exit_result ?dry 1000 0 k"
    "wait_phase ex_smart_job ?dry 0 = snd (exit_result ?dry 1000 0 k)"
    by blast
  from k(1) dry have "k = 1" by blast
  with k have d: "smart_wait ?dry [1] 70 1000 0 0 0 = (False, 1300)"
    "wait_phase ex_smart_job ?dry 0 = 1300"
    by (simp_all add: rd)
  from smart_wait_deadline [OF a1 a2 a3, of ?wet 0, unfolded p]
  obtain m where m: "\<forall>k'. exits_at ?wet [1] 70 1000 0 0 k' \<longrightarrow> k' = m"
    "smart_wait ?wet [1] 70 1000 0 0 0 = exit_result ?wet 1000 0 m"
    "wait_phase ex_smart_job ?wet 0 = snd (exit_result ?wet 1000 0 m)"
    by blast
  from m(1) wet have "m = 0" by blast
  with m have w: "smart_wait ?wet [1] 70 1000 0 0 0 = (True, 300)"
    "wait_phase ex_smart_job ?wet 0 = 300"
    by (simp_all add: rw)
  show ?thesis
    by (intro conjI a1 dry wet d w)
qed

subsection \<open>The executor and the cooldown times\<close>

text \<open>
  The clock never runs backwards in a job, and all a job does to the cooldown times is to
  stamp its pots with the clock of its end, when it succeeds: for \<^verbatim>\<open>lastWateringTime\<close>
  and the clock, a job is time that passes followed, on success, by the event
  \<open>JobEnds\<close> of the threshold evaluator's runs.
\<close>

lemma smart_wait_clock:
  "now \<le> snd (smart_wait tks pots targetSoil maxDuration startTime i now)"
proof (induction tks pots targetSoil maxDuration startTime i now rule: smart_wait.induct)
  case (1 tks pots targetSoil maxDuration startTime i now)
  note IH = "1.IH" [OF _ refl refl refl refl]
  show ?case
    apply (subst smart_wait.simps)
    using IH
    apply (auto simp: Let_def split: reply.splits option.splits)
    done
qed

lemma fixed_wait_clock: "now \<le> fixed_wait tks endTime i now"
proof (induction tks endTime i now rule: fixed_wait.induct)
  case (1 tks endTime i now)
  then show ?case by (subst fixed_wait.simps) auto
qed

lemma wait_phase_clock: "startTime \<le> wait_phase job tks startTime"
  using smart_wait_clock fixed_wait_clock
  by (auto simp: wait_phase_def split: option.splits)

lemma worker_as_events:
  "\<exists>n. clock (fst (wateringWorker w job env)) = clock w + int n \<and>
       lastWateringTime (fst (wateringWorker w job env)) =
         (if onWrite env \<and> offWrite env
          then mark_watered (potNumbers job) (clock w + int n) (lastWateringTime w)
          else lastWateringTime w)"
proof -
  let ?s = "clock w + int (onTime env)"
  obtain d where d: "wait_phase job (ticks env) ?s = ?s + int d"
    using wait_phase_clock [of ?s job "ticks env"] by (metis zle_iff_zadd)
  show ?thesis
  proof (cases "onWrite env")
    case False
    then show ?thesis
      by (intro exI [of _ "onTime env + safetyTime env"])
         (simp add: wateringWorker_def Let_def safety_handler_def update_aktuator_def)
  next
    case on: True
    show ?thesis
    proof (cases "offWrite env")
      case False
      then show ?thesis using on d
        by (intro exI [of _ "onTime env + d + offTime env + safetyTime env"])
           (simp add: wateringWorker_def Let_def safety_handler_def update_aktuator_def)
    next
      case True
      then show ?thesis using on d
        by (intro exI [of _ "onTime env + d + offTime env + historyTime env"])
           (simp add: wateringWorker_def Let_def update_aktuator_def add.assoc)
    qed
  qed
qed

section \<open>Properties of the schedule evaluator\<close>

lemma sublist_job_key: "sublist dk (job_key k dk ct)"
  unfolding job_key_def by (metis append_assoc sublist_appendI)

lemma sublist_legacy_key: "sublist dk (legacy_key n dk ct)"
  unfolding legacy_key_def by (metis append_assoc sublist_appendI)

lemma tick_inv_trigger_once:
  assumes "tick_inv L0 dk ct st"
    and "id_shape dk ct job"
  shows "tick_inv L0 dk ct (trigger_once env job st)"
  using assms by (cases st) (auto simp: tick_inv_def trigger_once_def Let_def)

lemma tick_inv_check_schedules:
  "tick_inv L0 dk ct st \<Longrightarrow> tick_inv L0 dk ct (check_schedules env cfg dk ct keys st)"
proof (induction keys arbitrary: st)
  case Nil
  then show ?case by simp
next
  case (Cons k keys)
  show ?case
    apply simp
    apply (rule Cons.IH)
    using Cons.prems
    by (auto simp: Let_def schedule_job_def id_shape_def intro!: tick_inv_trigger_once
        split: option.splits entry.splits)
qed

lemma tick_inv_check_legacy:
  "tick_inv L0 dk ct st \<Longrightarrow>
   n = ''1'' \<and> name = ''schedule-1'' \<or> n = ''2'' \<and> name = ''schedule-2'' \<Longrightarrow>
   tick_inv L0 dk ct (check_legacy env w_n d_n n name ty dk ct st)"
  by (auto simp: check_legacy_def legacy_job_def id_shape_def intro!: tick_inv_trigger_once)


lemma tick_inv_sublist:
  "tick_inv L0 dk ct (w, out) \<Longrightarrow> j \<in> set out \<Longrightarrow> sublist dk (jobId j)"
  using sublist_job_key sublist_legacy_key by (fastforce simp: tick_inv_def id_shape_def)

lemma check_post:
  assumes "checkScheduledWatering w env = (w', out, escaped)"
  shows "tick_post (dateKey (wallClock env)) (currentTime (wallClock env)) w w' out"
proof -
  let ?dk = "dateKey (wallClock env)" and ?ct = "currentTime (wallClock env)"
  obtain c' used r where f: "fetchKontrolSmart (counters w) (sdkReply env) (restReply env) = (c', used, r)"
    by (cases "fetchKontrolSmart (counters w) (sdkReply env) (restReply env)") auto
  define w1 where "w1 = w\<lparr> checkCounter := checkCounter w + 1, counters := c',
                           clock := clock w + int (fetchTime env) \<rparr>"
  have L1: "lastScheduleCheck w1 = lastScheduleCheck w" by (simp add: w1_def)
  show ?thesis
  proof (cases "\<exists>cfg. r = Inr (Some cfg) \<and> waktuEnabled cfg")
    case False
    then have "w' = w1 \<and> out = []"
      using assms f by (auto simp: checkScheduledWatering_def match_schedules_def Let_def w1_def
          split: sum.splits option.splits)
    then show ?thesis by (auto simp: tick_post_def L1)
  next
    case True
    then obtain cfg where r: "r = Inr (Some cfg)" and en: "waktuEnabled cfg" by blast
    define st3 where "st3 = check_legacy env (waktu_2 cfg) (durasi_2 cfg) ''2'' ''schedule-2'' ''waktu_jadwal_2'' ?dk ?ct
         (check_legacy env (waktu_1 cfg) (durasi_1 cfg) ''1'' ''schedule-1'' ''waktu_jadwal_1'' ?dk ?ct
           (check_schedules env cfg ?dk ?ct (filter (prefix ''jadwal_'') (map fst (entries cfg))) (w1, [])))"
    have "tick_inv (lastScheduleCheck w) ?dk ?ct (w1, [])"
      by (simp add: tick_inv_def L1)
    then have inv: "tick_inv (lastScheduleCheck w) ?dk ?ct st3"
      unfolding st3_def by (intro tick_inv_check_legacy tick_inv_check_schedules) auto
    obtain w4 out4 where st3: "st3 = (w4, out4)" by (cases st3) auto
    have res: "w' = w4\<lparr> lastScheduleCheck := filter (sublist ?dk) (lastScheduleCheck w4) \<rparr>" "out = out4"
      using assms f r en st3
      by (auto simp: checkScheduledWatering_def match_schedules_def Let_def w1_def st3_def)
    have sub: "\<forall>j \<in> set out4. sublist ?dk (jobId j)"
      using inv st3 tick_inv_sublist by blast
    show ?thesis
      using inv sub unfolding st3 res tick_post_def tick_inv_def
      by auto
  qed
qed

lemma run_post:
  assumes "\<forall>env \<in> set envs. dateKey (wallClock env) = dk"
  shows "distinct (map jobId (snd (run_schedule w envs))) \<and>
         jobId ` set (snd (run_schedule w envs)) \<inter> set (lastScheduleCheck w) = {} \<and>
         (\<forall>j \<in> set (snd (run_schedule w envs)). sublist dk (jobId j)) \<and>
         (\<forall>j \<in> set (snd (run_schedule w envs)).
            \<exists>env \<in> set envs. id_shape dk (currentTime (wallClock env)) j)"
  using assms
proof (induction envs arbitrary: w)
  case Nil
  then show ?case by simp
next
  case (Cons env envs)
  obtain w1 jobs escaped where c: "checkScheduledWatering w env = (w1, jobs, escaped)"
    by (cases "checkScheduledWatering w env") auto
  obtain w2 later where r: "run_schedule w1 envs = (w2, later)"
    by (cases "run_schedule w1 envs") auto
  have dk: "dateKey (wallClock env) = dk" using Cons.prems by simp
  have post: "tick_post dk (currentTime (wallClock env)) w w1 jobs"
    using check_post [OF c] dk by simp
  have IH: "distinct (map jobId later)" "jobId ` set later \<inter> set (lastScheduleCheck w1) = {}"
    "\<forall>j \<in> set later. sublist dk (jobId j)"
    "\<forall>j \<in> set later. \<exists>env \<in> set envs. id_shape dk (currentTime (wallClock env)) j"
    using Cons.IH [of w1] Cons.prems r by auto
  have "snd (run_schedule w (env # envs)) = jobs @ later"
    using c r by simp
  moreover have "distinct (map jobId (jobs @ later))"
    using post IH(1,2) unfolding tick_post_def by auto
  moreover have "jobId ` set (jobs @ later) \<inter> set (lastScheduleCheck w) = {}"
  proof -
    have "jobId j \<notin> set (lastScheduleCheck w)" if "j \<in> set later" for j
    proof
      assume "jobId j \<in> set (lastScheduleCheck w)"
      moreover have "sublist dk (jobId j)" using IH(3) that by blast
      ultimately have "jobId j \<in> set (lastScheduleCheck w1)"
        using post unfolding tick_post_def by blast
      then show False using IH(2) that by blast
    qed
    then show ?thesis using post unfolding tick_post_def by auto
  qed
  moreover have "\<forall>j \<in> set (jobs @ later). sublist dk (jobId j)"
    using post IH(3) unfolding tick_post_def by auto
  moreover have "\<forall>j \<in> set (jobs @ later).
      \<exists>e \<in> set (env # envs). id_shape dk (currentTime (wallClock e)) j"
    using post IH(4) unfolding tick_post_def by auto
  ultimately show ?case by simp
qed

lemma distinct_count_le_1:
  "distinct (map f xs) \<Longrightarrow> length (filter (\<lambda>x. f x = v) xs) \<le> 1"
  by (induction xs) (auto simp: filter_empty_conv image_iff)


text \<open>
  Claim C2. Over any number of poll cycles that fall on one day (all with the date key
  \<open>dk\<close>), from any ledger and whatever the store and the queue answer, at most one job
  with the id built from a schedule name, \<open>dk\<close> and a time of day is added to the queue,
  and none when that id is in the ledger at the start. Every job added for a named
  schedule carries the id \<open>job_key\<close> of its name, the date key and the time of day of
  its cycle; the two legacy slots have ids of their own.
\<close>

theorem one_job_per_schedule_per_day:
  assumes "\<forall>env \<in> set envs. dateKey (wallClock env) = dk"
  shows "length (filter (\<lambda>j. jobId j = job_key name dk ct) (snd (run_schedule w envs))) \<le> 1
       \<and> (job_key name dk ct \<in> set (lastScheduleCheck w) \<longrightarrow>
            filter (\<lambda>j. jobId j = job_key name dk ct) (snd (run_schedule w envs)) = [])
       \<and> (\<forall>j \<in> set (snd (run_schedule w envs)).
            \<exists>env \<in> set envs. id_shape dk (currentTime (wallClock env)) j)"
proof -
  note p = run_post [OF assms, of w]
  have "length (filter (\<lambda>j. jobId j = job_key name dk ct) (snd (run_schedule w envs))) \<le> 1"
    by (rule distinct_count_le_1) (use p in blast)
  moreover have "filter (\<lambda>j. jobId j = job_key name dk ct) (snd (run_schedule w envs)) = []"
    if "job_key name dk ct \<in> set (lastScheduleCheck w)"
    using p that by (auto simp: filter_empty_conv)
  ultimately show ?thesis using p by blast
qed


lemma trigger_once_same:
  "same_ledger a b \<Longrightarrow> same_ledger (trigger_once env job a) (trigger_once env job b)"
  by (cases a; cases b) (auto simp: same_ledger_def trigger_once_def Let_def)

lemma check_schedules_same:
  "same_ledger a b \<Longrightarrow>
   same_ledger (check_schedules env cfg dk ct keys a) (check_schedules env cfg dk ct keys b)"
proof (induction keys arbitrary: a b)
  case Nil
  then show ?case by simp
next
  case (Cons k keys)
  show ?case
    apply simp
    apply (rule Cons.IH)
    using Cons.prems
    by (auto simp: Let_def intro!: trigger_once_same split: option.splits entry.splits)
qed

lemma check_legacy_same:
  "same_ledger a b \<Longrightarrow>
   same_ledger (check_legacy env w_n d_n n name ty dk ct a) (check_legacy env w_n d_n n name ty dk ct b)"
  by (auto simp: check_legacy_def intro!: trigger_once_same)

lemma match_schedules_same:
  assumes "lastScheduleCheck wa = lastScheduleCheck wb"
  shows "same_ledger (match_schedules env cfg wa) (match_schedules env cfg wb)"
proof (cases "\<exists>c. cfg = Some c \<and> waktuEnabled c")
  case False
  then show ?thesis using assms
    by (auto simp: match_schedules_def same_ledger_def split: option.splits)
next
  case True
  then obtain c where c: "cfg = Some c" "waktuEnabled c" by blast
  let ?dk = "dateKey (wallClock env)" and ?ct = "currentTime (wallClock env)"
  let ?f = "\<lambda>st. check_legacy env (waktu_2 c) (durasi_2 c) ''2'' ''schedule-2'' ''waktu_jadwal_2'' ?dk ?ct
         (check_legacy env (waktu_1 c) (durasi_1 c) ''1'' ''schedule-1'' ''waktu_jadwal_1'' ?dk ?ct
           (check_schedules env c ?dk ?ct (filter (prefix ''jadwal_'') (map fst (entries c))) st))"
  have "same_ledger (wa, []) (wb, [])" using assms by (simp add: same_ledger_def)
  then have s: "same_ledger (?f (wa, [])) (?f (wb, []))"
    by (intro check_legacy_same check_schedules_same)
  obtain xa oa where a: "?f (wa, []) = (xa, oa)" by (cases "?f (wa, [])") auto
  obtain xb ob where b: "?f (wb, []) = (xb, ob)" by (cases "?f (wb, [])") auto
  show ?thesis
    using s c a b by (simp add: match_schedules_def Let_def same_ledger_def)
qed

lemma check_after_fetch:
  assumes "fetchKontrolSmart (counters w) (sdkReply env) (restReply env) = (c', used, Inr cfg)"
  shows "same_ledger (case checkScheduledWatering w env of (w', out, escaped) \<Rightarrow> (w', out))
           (match_schedules env cfg w)
       \<and> snd (snd (checkScheduledWatering w env)) = None"
proof -
  let ?w1 = "w\<lparr> checkCounter := checkCounter w + 1, counters := c',
                 clock := clock w + int (fetchTime env) \<rparr>"
  have "same_ledger (match_schedules env cfg ?w1) (match_schedules env cfg w)"
    by (rule match_schedules_same) simp
  then show ?thesis using assms
    by (auto simp: checkScheduledWatering_def Let_def split: prod.splits)
qed

lemma fetch_both_fail:
  "\<exists>c' used e. fetchKontrolSmart c Failed Failed = (c', used, Inl e)"
  by (simp add: fetchKontrolSmart_def Let_def)

text \<open>
  Claim C8. A poll cycle in which the configuration fetch fails on both transports
  returns normally, adds no job and leaves the ledger as it was. In a later cycle whose
  fetch returns a configuration, the jobs added and the ledger left are those of
  schedule matching on that configuration from the ledger of before the failed cycle.
\<close>

theorem failed_read_cycle:
  assumes "sdkReply env = Failed" and "restReply env = Failed"
  shows "case checkScheduledWatering w env of
           (w', jobs, escaped) \<Rightarrow>
             escaped = None \<and> jobs = [] \<and> lastScheduleCheck w' = lastScheduleCheck w \<and>
             (\<forall>env2 c2 used cfg.
                fetchKontrolSmart (counters w') (sdkReply env2) (restReply env2) = (c2, used, Inr cfg)
                \<longrightarrow> (case checkScheduledWatering w' env2 of
                       (w2, jobs2, escaped2) \<Rightarrow>
                         escaped2 = None \<and> jobs2 = snd (match_schedules env2 cfg w) \<and>
                         lastScheduleCheck w2 = lastScheduleCheck (fst (match_schedules env2 cfg w))))"
proof -
  obtain w' jobs escaped where r: "checkScheduledWatering w env = (w', jobs, escaped)"
    by (cases "checkScheduledWatering w env") auto
  obtain c' used e where
    f: "fetchKontrolSmart (counters w) (sdkReply env) (restReply env) = (c', used, Inl e)"
    using fetch_both_fail [of "counters w"] assms by auto
  have first: "escaped = None" "jobs = []" "lastScheduleCheck w' = lastScheduleCheck w"
    using r f by (auto simp: checkScheduledWatering_def Let_def)
  have "escaped2 = None \<and> jobs2 = snd (match_schedules env2 cfg w) \<and>
        lastScheduleCheck w2 = lastScheduleCheck (fst (match_schedules env2 cfg w))"
    if "fetchKontrolSmart (counters w') (sdkReply env2) (restReply env2) = (c2, used2, Inr cfg)"
      and "checkScheduledWatering w' env2 = (w2, jobs2, escaped2)"
    for env2 c2 used2 cfg w2 jobs2 escaped2
  proof -
    have "same_ledger (w2, jobs2) (match_schedules env2 cfg w')" "escaped2 = None"
      using check_after_fetch [OF that(1)] that(2) by auto
    moreover have "same_ledger (match_schedules env2 cfg w') (match_schedules env2 cfg w)"
      by (rule match_schedules_same) (rule first(3))
    ultimately show ?thesis by (simp add: same_ledger_def)
  qed
  then show ?thesis using r first by (auto split: prod.splits)
qed


theorem failed_read_cycle_witness:
  "sdkReply (ex_poll Failed Failed) = Failed \<and> restReply (ex_poll Failed Failed) = Failed
   \<and> fst (snd (checkScheduledWatering ex_world (ex_poll Failed Failed))) = []
   \<and> map jobId (fst (snd (checkScheduledWatering
        (fst (checkScheduledWatering ex_world (ex_poll Failed Failed)))
        (ex_poll (Reply (Some ex_kontrol)) Failed)))) = [''jadwal_1_2026-11-02_08_00'']"
proof -
  let ?e = "ex_poll Failed Failed" and ?e2 = "ex_poll (Reply (Some ex_kontrol)) Failed"
  have h: "sdkReply ?e = Failed" "restReply ?e = Failed"
    by (simp_all add: ex_poll_def)
  obtain w' jobs escaped where r: "checkScheduledWatering ex_world ?e = (w', jobs, escaped)"
    by (cases "checkScheduledWatering ex_world ?e") auto
  obtain w2 jobs2 escaped2 where r2: "checkScheduledWatering w' ?e2 = (w2, jobs2, escaped2)"
    by (cases "checkScheduledWatering w' ?e2") auto
  have c: "consecutiveFirebaseErrors (counters w') = 1"
    using r by (auto simp: checkScheduledWatering_def fetchKontrolSmart_def Let_def ex_poll_def
        ex_world_def fresh_client_def SKIP_SDK_THRESHOLD_def)
  have f: "fetchKontrolSmart (counters w') (sdkReply ?e2) (restReply ?e2) =
             (counters w'\<lparr> consecutiveFirebaseErrors := 0, restFallbackCount := 0,
                           sdkSuccessCount := sdkSuccessCount (counters w') + 1 \<rparr>, [SDK],
              Inr (Some ex_kontrol))"
    using c by (simp add: fetchKontrolSmart_def ex_poll_def SKIP_SDK_THRESHOLD_def)
  have m: "map jobId (snd (match_schedules ?e2 (Some ex_kontrol) ex_world)) = [''jadwal_1_2026-11-02_08_00'']"
    by code_simp
  note T = failed_read_cycle [OF h, of ex_world]
  from T r have first: "jobs = []"
    and nxt: "\<forall>env2 c2 used cfg.
                fetchKontrolSmart (counters w') (sdkReply env2) (restReply env2) = (c2, used, Inr cfg)
                \<longrightarrow> (case checkScheduledWatering w' env2 of
                       (w2, jobs2, escaped2) \<Rightarrow>
                         escaped2 = None \<and> jobs2 = snd (match_schedules env2 cfg ex_world) \<and>
                         lastScheduleCheck w2 = lastScheduleCheck (fst (match_schedules env2 cfg ex_world)))"
    by auto
  from nxt [rule_format, OF f] r2
  have "jobs2 = snd (match_schedules ?e2 (Some ex_kontrol) ex_world)" by simp
  then show ?thesis using h r r2 first m by simp
qed

theorem one_job_per_schedule_per_day_witness:
  "map (\<lambda>env. dateKey (wallClock env)) ex_ticks = [''2026-11-02'', ''2026-11-02'', ''2026-11-02'']
   \<and> map jobId (snd (run_schedule ex_world ex_ticks)) = [job_key ''jadwal_1'' ''2026-11-02'' ''08:00'']
   \<and> length (filter (\<lambda>j. jobId j = job_key ''jadwal_1'' ''2026-11-02'' ''08:00'')
        (snd (run_schedule ex_world ex_ticks))) \<le> 1"
proof -
  have m: "map (\<lambda>env. dateKey (wallClock env)) ex_ticks =
             [''2026-11-02'', ''2026-11-02'', ''2026-11-02'']"
    by code_simp
  have d: "\<forall>env \<in> set ex_ticks. dateKey (wallClock env) = ''2026-11-02''"
    by code_simp
  have r: "map jobId (snd (run_schedule ex_world ex_ticks)) = [job_key ''jadwal_1'' ''2026-11-02'' ''08:00'']"
    by code_simp
  show ?thesis
    using one_job_per_schedule_per_day [OF d, of "''jadwal_1''" "''08:00''" ex_world] m r
    by simp
qed

section \<open>Properties of the threshold evaluator\<close>

lemma check_pots_filter:
  "check_pots lwt now snap lower upper pots acc =
     (fst acc @ filter (needs_water lwt now snap lower upper) pots,
      snd acc @ map (\<lambda>p. (p, soil_value snap p)) (filter (needs_water lwt now snap lower upper) pots))"
  by (induction pots arbitrary: acc) (auto simp: needs_water_def Let_def)

lemma mark_watered_apply:
  "mark_watered pots now lwt k = (if k \<in> pot_key ` set pots then Some now else lwt k)"
  by (induction pots arbitrary: lwt) auto

lemma process_threshold_eq:
  "process_threshold env snap key (Some (Object thr)) w =
     (if aktif thr \<noteq> Some True \<or> entry_need w snap thr = [] then (w, [])
      else
        let job = threshold_job key thr (entry_need w snap thr)
                    (map (\<lambda>p. (p, soil_value snap p)) (entry_need w snap thr)) (clock w);
            w1 = w\<lparr> clock := clock w + int (addTime env key) \<rparr>
        in if addOk env key
           then (w1\<lparr> lastWateringTime :=
                       mark_watered (entry_need w snap thr) (clock w1) (lastWateringTime w1) \<rparr>,
                 [(clock w, job, True)])
           else (w1, [(clock w, job, False)]))"
  by (simp add: process_threshold_def check_pots_filter entry_need_def Let_def)

lemma process_threshold_other:
  "\<forall>thr. e \<noteq> Some (Object thr) \<Longrightarrow> process_threshold env snap key e w = (w, [])"
  by (auto simp: process_threshold_def split: option.splits entry.splits)

lemma potNumbers_threshold_job [simp]:
  "potNumbers (jobData (threshold_job key thr need details now)) = need"
  by (simp add: threshold_job_def Let_def)

lemma separated_append:
  "separated (xs @ ys) \<longleftrightarrow>
     separated xs \<and> separated ys \<and>
     (\<forall>x \<in> set xs. \<forall>y \<in> set ys. shares_pot x y \<longrightarrow> sensorDebounce \<le> fst y - fst x)"
  by (induction xs) auto

lemma cooled_later:
  assumes "cooled w out" and "clock w \<le> clock w'"
    and "\<And>k. lastWateringTime w' k = lastWateringTime w k \<or>
             (\<exists>c. lastWateringTime w' k = Some c \<and> clock w \<le> c)"
  shows "cooled w' out"
  unfolding cooled_def
proof (intro conjI ballI)
  show "0 < clock w'" using assms(1,2) by (simp add: cooled_def)
next
  fix x assume x: "x \<in> set out"
  then show "0 < fst x" using assms(1) by (simp add: cooled_def)
  show "fst x \<le> clock w'" using assms(1,2) x by (fastforce simp: cooled_def)
next
  fix x p assume x: "x \<in> set out" and p: "p \<in> set (potNumbers (jobData (snd x)))"
  from assms(1) x p obtain lt where lt: "lastWateringTime w (pot_key p) = Some lt" "fst x \<le> lt"
    unfolding cooled_def by blast
  have tx: "fst x \<le> clock w" using assms(1) x by (simp add: cooled_def)
  from assms(3) [of "pot_key p"] show "\<exists>lt. lastWateringTime w' (pot_key p) = Some lt \<and> fst x \<le> lt"
    using lt tx by auto
qed

lemma entry_need_not_cooling:
  "p \<in> set (entry_need w snap thr) \<Longrightarrow> \<not> cooling (lastWateringTime w) (clock w) p"
  by (simp add: entry_need_def needs_water_def)

lemma step_entry:
  assumes "cooled w prev" and "separated prev"
    and "process_threshold env snap key e w = (w1, calls)"
  shows "cooled w1 (prev @ enqueued calls) \<and> separated (prev @ enqueued calls)"
proof (cases "\<exists>thr. e = Some (Object thr) \<and> aktif thr = Some True \<and> entry_need w snap thr \<noteq> []")
  case False
  then have "w1 = w \<and> calls = []"
    using assms(3) process_threshold_other [of e env snap key w]
    by (cases "\<exists>thr. e = Some (Object thr)") (auto simp: process_threshold_eq)
  then show ?thesis using assms(1,2) by (simp add: enqueued_def)
next
  case True
  then obtain thr where e: "e = Some (Object thr)" and act: "aktif thr = Some True"
    and ne: "entry_need w snap thr \<noteq> []" by blast
  let ?need = "entry_need w snap thr"
  let ?job = "threshold_job key thr ?need (map (\<lambda>p. (p, soil_value snap p)) ?need) (clock w)"
  let ?w1 = "w\<lparr> clock := clock w + int (addTime env key) \<rparr>"
  show ?thesis
  proof (cases "addOk env key")
    case False
    then have r: "w1 = ?w1" "calls = [(clock w, ?job, False)]"
      using assms(3) e act ne by (auto simp: process_threshold_eq Let_def)
    have "cooled w1 prev" by (rule cooled_later [OF assms(1)]) (simp_all add: r)
    then show ?thesis using assms(2) r by (simp add: enqueued_def)
  next
    case True
    then have r: "w1 = ?w1\<lparr> lastWateringTime := mark_watered ?need (clock ?w1) (lastWateringTime ?w1) \<rparr>"
      "calls = [(clock w, ?job, True)]"
      using assms(3) e act ne by (auto simp: process_threshold_eq Let_def)
    have enq: "enqueued calls = [(clock w, ?job)]" by (simp add: r enqueued_def)
    have old: "cooled w1 prev"
      by (rule cooled_later [OF assms(1)]) (auto simp: r mark_watered_apply)
    have pos: "0 < clock w" using assms(1) by (simp add: cooled_def)
    have new: "cooled w1 [(clock w, ?job)]"
      using pos by (auto simp: cooled_def r mark_watered_apply)
    have c: "cooled w1 (prev @ enqueued calls)"
      using old new by (auto simp: cooled_def enq)
    have "sensorDebounce \<le> clock w - fst x" if x: "x \<in> set prev" and sh: "shares_pot x (clock w, ?job)" for x
    proof -
      from sh obtain p where p: "p \<in> set (potNumbers (jobData (snd x)))" "p \<in> set ?need"
        by (auto simp: shares_pot_def)
      from assms(1) x p(1) obtain lt where lt: "lastWateringTime w (pot_key p) = Some lt" "fst x \<le> lt"
        and tpos: "0 < fst x"
        unfolding cooled_def by blast
      from entry_need_not_cooling [OF p(2)] lt tpos have "sensorDebounce \<le> clock w - lt"
        by (simp add: cooling_def)
      then show ?thesis using lt(2) by linarith
    qed
    then have "separated (prev @ enqueued calls)"
      using assms(2) by (simp add: separated_append enq)
    then show ?thesis using c by simp
  qed
qed


lemma enqueued_append: "enqueued (a @ b) = enqueued a @ enqueued b"
  by (simp add: enqueued_def)

lemma step_loop:
  "cooled w prev \<Longrightarrow> separated prev \<Longrightarrow> process_thresholds env snap cfg keys w = (w', calls) \<Longrightarrow>
   cooled w' (prev @ enqueued calls) \<and> separated (prev @ enqueued calls)"
proof (induction keys arbitrary: w prev calls w')
  case Nil
  then show ?case by (simp add: enqueued_def)
next
  case (Cons key keys)
  obtain w1 c1 where p: "process_threshold env snap key (map_of (entries cfg) key) w = (w1, c1)"
    by (cases "process_threshold env snap key (map_of (entries cfg) key) w") auto
  note s1 = step_entry [OF Cons.prems(1,2) p]
  show ?case
  proof (cases "\<exists>c \<in> set c1. \<not> snd (snd c)")
    case True
    then have "w' = w1" "calls = c1" using Cons.prems(3) p by auto
    then show ?thesis using s1 by simp
  next
    case False
    obtain w2 later where l: "process_thresholds env snap cfg keys w1 = (w2, later)"
      by (cases "process_thresholds env snap cfg keys w1") auto
    have r: "w' = w2" "calls = c1 @ later" using Cons.prems(3) p l False by auto
    from Cons.IH [OF _ _ l, of "prev @ enqueued c1"] s1
    show ?thesis by (simp add: r enqueued_append)
  qed
qed

lemma check_cases:
  assumes "checkSensorThresholds w env = (w', calls)"
  shows "(calls = [] \<and> lastWateringTime w' = lastWateringTime w \<and> clock w \<le> clock w') \<or>
         (\<exists>snap cfg w1. lastWateringTime w1 = lastWateringTime w \<and> clock w \<le> clock w1 \<and>
            snd (readFirebaseSmart (counters w) (dataSdk env) (dataRest env)) = Inr (Some snap) \<and>
            snd (snd (fetchKontrolSmart (counters w) (sdkReply env) (restReply env))) = Inr (Some cfg) \<and>
            otomatis cfg \<and>
            process_thresholds env snap cfg
              (filter (prefix ''threshold_'') (map fst (entries cfg))) w1 = (w', calls))"
proof -
  let ?w0 = "w\<lparr> sensorCheckCounter := sensorCheckCounter w + 1, clock := clock w + int (dataTime env) \<rparr>"
  obtain c' used r where f: "fetchKontrolSmart (counters w) (sdkReply env) (restReply env) = (c', used, r)"
    by (cases "fetchKontrolSmart (counters w) (sdkReply env) (restReply env)") auto
  let ?w1 = "?w0\<lparr> counters := c', clock := clock ?w0 + int (fetchTime env) \<rparr>"
  let ?rd = "snd (readFirebaseSmart (counters w) (dataSdk env) (dataRest env))"
  show ?thesis
  proof (cases "\<exists>snap. ?rd = Inr (Some snap)")
    case False
    then have "?rd = Inr None \<or> (\<exists>e. ?rd = Inl e)"
      by (cases ?rd) auto
    then have "w' = ?w0 \<and> calls = []"
      using assms by (auto simp: checkSensorThresholds_def)
    then show ?thesis by auto
  next
    case True
    then obtain snap where rd: "?rd = Inr (Some snap)" by blast
    show ?thesis
    proof (cases "\<exists>cfg. r = Inr (Some cfg) \<and> otomatis cfg \<and>
                        filter (prefix ''threshold_'') (map fst (entries cfg)) \<noteq> []")
      case False
      have "(\<exists>e. r = Inl e) \<or> r = Inr None \<or> (\<exists>cfg. r = Inr (Some cfg))"
      proof (cases r)
        case (Inl e)
        then show ?thesis by simp
      next
        case (Inr b)
        then show ?thesis by (cases b) simp_all
      qed
      with False have "(\<exists>e. r = Inl e) \<or> r = Inr None \<or>
                 (\<exists>cfg. r = Inr (Some cfg) \<and>
                    (\<not> otomatis cfg \<or> filter (prefix ''threshold_'') (map fst (entries cfg)) = []))"
        by blast
      then have "w' = ?w1 \<and> calls = []"
        using assms rd f by (auto simp: checkSensorThresholds_def Let_def split: if_splits)
      then show ?thesis by auto
    next
      case True
      then obtain cfg where cfg: "r = Inr (Some cfg)" "otomatis cfg"
        "filter (prefix ''threshold_'') (map fst (entries cfg)) \<noteq> []" by blast
      then have "process_thresholds env snap cfg
              (filter (prefix ''threshold_'') (map fst (entries cfg))) ?w1 = (w', calls)"
        using assms rd f by (simp add: checkSensorThresholds_def Let_def)
      moreover have "lastWateringTime ?w1 = lastWateringTime w" "clock w \<le> clock ?w1" by simp_all
      ultimately show ?thesis using rd f cfg by (intro disjI2 exI [of _ snap] exI [of _ cfg] exI [of _ ?w1]) simp
    qed
  qed
qed

lemma step_check:
  assumes "cooled w prev" and "separated prev" and "checkSensorThresholds w env = (w', calls)"
  shows "cooled w' (prev @ enqueued calls) \<and> separated (prev @ enqueued calls)"
  using check_cases [OF assms(3)]
proof (elim disjE conjE exE)
  assume a: "calls = []" "lastWateringTime w' = lastWateringTime w" "clock w \<le> clock w'"
  have "cooled w' prev" by (rule cooled_later [OF assms(1)]) (simp_all add: a)
  then show ?thesis using assms(2) a by (simp add: enqueued_def)
next
  fix snap cfg w1
  assume a: "lastWateringTime w1 = lastWateringTime w" "clock w \<le> clock w1"
    and p: "process_thresholds env snap cfg
              (filter (prefix ''threshold_'') (map fst (entries cfg))) w1 = (w', calls)"
  have "cooled w1 prev" by (rule cooled_later [OF assms(1)]) (simp_all add: a)
  from step_loop [OF this assms(2) p] show ?thesis .
qed

lemma entry_call:
  assumes "c \<in> set (snd (process_threshold env snap key e w))"
  shows "\<exists>thr. e = Some (Object thr) \<and> aktif thr = Some True \<and> entry_need w snap thr \<noteq> [] \<and>
           c = (clock w,
                threshold_job key thr (entry_need w snap thr)
                  (map (\<lambda>p. (p, soil_value snap p)) (entry_need w snap thr)) (clock w),
                addOk env key)"
proof (cases "\<exists>thr. e = Some (Object thr)")
  case False
  then show ?thesis using assms process_threshold_other [of e env snap key w] by simp
next
  case True
  then obtain thr where "e = Some (Object thr)" by blast
  then show ?thesis using assms
    by (auto simp: process_threshold_eq Let_def split: if_splits)
qed

lemma entry_stamped:
  assumes "process_threshold env snap key e w = (w', calls)"
    and "(t, job, True) \<in> set calls" and "p \<in> set (potNumbers (jobData job))"
  shows "lastWateringTime w' (pot_key p) = Some (clock w') \<and> t = clock w \<and> clock w \<le> clock w'"
proof -
  from entry_call [of "(t, job, True)" env snap key e w] assms(1,2)
  obtain thr where thr: "e = Some (Object thr)" "aktif thr = Some True" "entry_need w snap thr \<noteq> []"
    "t = clock w" "addOk env key"
    "job = threshold_job key thr (entry_need w snap thr)
                  (map (\<lambda>p. (p, soil_value snap p)) (entry_need w snap thr)) (clock w)"
    by auto
  then show ?thesis using assms(1,3)
    by (auto simp: process_threshold_eq Let_def mark_watered_apply)
qed

lemma loop_calls:
  "c \<in> set (snd (process_thresholds env snap cfg keys w)) \<Longrightarrow>
   \<exists>w0 key. key \<in> set keys \<and> c \<in> set (snd (process_threshold env snap key (map_of (entries cfg) key) w0))"
proof (induction keys arbitrary: w)
  case Nil
  then show ?case by simp
next
  case (Cons key keys)
  obtain w1 c1 where p: "process_threshold env snap key (map_of (entries cfg) key) w = (w1, c1)"
    by (cases "process_threshold env snap key (map_of (entries cfg) key) w") auto
  obtain w2 later where l: "process_thresholds env snap cfg keys w1 = (w2, later)"
    by (cases "process_thresholds env snap cfg keys w1") auto
  from Cons.prems p l have "c \<in> set c1 \<or> c \<in> set later"
    by (auto split: if_splits)
  then show ?case
  proof
    assume "c \<in> set c1"
    then have "c \<in> set (snd (process_threshold env snap key (map_of (entries cfg) key) w))"
      using p by simp
    then show ?thesis by (intro exI [of _ w] exI [of _ key]) simp
  next
    assume "c \<in> set later"
    then have "c \<in> set (snd (process_thresholds env snap cfg keys w1))" using l by simp
    from Cons.IH [OF this] show ?thesis by auto
  qed
qed

lemma entry_pots_need_water:
  assumes "c \<in> set (snd (process_threshold env snap key (Some (Object thr)) w))"
    and "p \<in> set (potNumbers (jobData (fst (snd c))))"
  shows "needs_water (lastWateringTime w) (clock w) snap
           (or_default (batas_bawah thr) 30) (or_default (batas_atas thr) 70) p"
  using entry_call [OF assms(1)] assms(2) by (auto simp: entry_need_def)

text \<open>
  Claim C5. Every pot \<open>p\<close> in a job that a sensor check hands to the queue belongs to an
  active threshold entry of the configuration read in that check, is numbered 1 to 5, and
  its moisture in the snapshot read in that check is below the entry's upper bound and
  below its lower bound: a pot at or above the upper bound is never included. At the
  evaluation of its entry such a pot needs water in the sense of \<open>needs_water\<close>, which
  also says that it is not cooling down.
\<close>

theorem wet_pots_excluded:
  assumes "c \<in> set (snd (checkSensorThresholds w env))"
    and "p \<in> set (potNumbers (jobData (fst (snd c))))"
  shows "(\<exists>snap cfg thr.
           snd (readFirebaseSmart (counters w) (dataSdk env) (dataRest env)) = Inr (Some snap) \<and>
           snd (snd (fetchKontrolSmart (counters w) (sdkReply env) (restReply env))) = Inr (Some cfg) \<and>
           map_of (entries cfg) (jobName (fst (snd c))) = Some (Object thr) \<and>
           aktif thr = Some True \<and> 1 \<le> p \<and> p \<le> 5 \<and>
           soil_value snap p < or_default (batas_atas thr) 70 \<and>
           soil_value snap p < or_default (batas_bawah thr) 30)
       \<and> (\<forall>snap key thr w0 c' q.
             c' \<in> set (snd (process_threshold env snap key (Some (Object thr)) w0)) \<and>
             q \<in> set (potNumbers (jobData (fst (snd c'))))
             \<longrightarrow> needs_water (lastWateringTime w0) (clock w0) snap
                   (or_default (batas_bawah thr) 30) (or_default (batas_atas thr) 70) q)"
proof -
  obtain w' calls where r: "checkSensorThresholds w env = (w', calls)"
    by (cases "checkSensorThresholds w env") auto
  with assms(1) have "calls \<noteq> []" by auto
  with check_cases [OF r] obtain snap cfg w1 where
    rd: "snd (readFirebaseSmart (counters w) (dataSdk env) (dataRest env)) = Inr (Some snap)"
    and f: "snd (snd (fetchKontrolSmart (counters w) (sdkReply env) (restReply env))) = Inr (Some cfg)"
    and l: "process_thresholds env snap cfg
              (filter (prefix ''threshold_'') (map fst (entries cfg))) w1 = (w', calls)"
    by auto
  have "c \<in> set (snd (process_thresholds env snap cfg
              (filter (prefix ''threshold_'') (map fst (entries cfg))) w1))"
    using assms(1) r l by simp
  from loop_calls [OF this] obtain w0 key where
    c: "c \<in> set (snd (process_threshold env snap key (map_of (entries cfg) key) w0))" by blast
  from entry_call [OF c] obtain thr where thr: "map_of (entries cfg) key = Some (Object thr)"
    "aktif thr = Some True"
    "c = (clock w0, threshold_job key thr (entry_need w0 snap thr)
                  (map (\<lambda>p. (p, soil_value snap p)) (entry_need w0 snap thr)) (clock w0), addOk env key)"
    by blast
  have name: "jobName (fst (snd c)) = key" by (simp add: thr(3) threshold_job_def Let_def)
  have "p \<in> set (entry_need w0 snap thr)" using assms(2) by (simp add: thr(3))
  then have "needs_water (lastWateringTime w0) (clock w0) snap
               (or_default (batas_bawah thr) 30) (or_default (batas_atas thr) 70) p"
    by (simp add: entry_need_def)
  then have "\<exists>snap cfg thr.
           snd (readFirebaseSmart (counters w) (dataSdk env) (dataRest env)) = Inr (Some snap) \<and>
           snd (snd (fetchKontrolSmart (counters w) (sdkReply env) (restReply env))) = Inr (Some cfg) \<and>
           map_of (entries cfg) (jobName (fst (snd c))) = Some (Object thr) \<and>
           aktif thr = Some True \<and> 1 \<le> p \<and> p \<le> 5 \<and>
           soil_value snap p < or_default (batas_atas thr) 70 \<and>
           soil_value snap p < or_default (batas_bawah thr) 30"
    using rd f thr(1,2) name
    by (intro exI [of _ snap] exI [of _ cfg] exI [of _ thr]) (simp add: needs_water_def)
  then show ?thesis using entry_pots_need_water by blast
qed










theorem wet_pots_excluded_witness:
  "hd (snd (checkSensorThresholds ex_world ex_sensor_poll)) \<in> set (snd (checkSensorThresholds ex_world ex_sensor_poll))
   \<and> 1 \<in> set (potNumbers (jobData (fst (snd (hd (snd (checkSensorThresholds ex_world ex_sensor_poll)))))))
   \<and> 3 \<notin> set (potNumbers (jobData (fst (snd (hd (snd (checkSensorThresholds ex_world ex_sensor_poll)))))))
   \<and> (\<exists>snap cfg thr.
           snd (readFirebaseSmart (counters ex_world) (dataSdk ex_sensor_poll) (dataRest ex_sensor_poll)) = Inr (Some snap) \<and>
           snd (snd (fetchKontrolSmart (counters ex_world) (sdkReply ex_sensor_poll) (restReply ex_sensor_poll))) = Inr (Some cfg) \<and>
           map_of (entries cfg) ''threshold_1'' = Some (Object thr) \<and>
           soil_value snap 1 < or_default (batas_atas thr) 70)"
proof -
  let ?c = "hd (snd (checkSensorThresholds ex_world ex_sensor_poll))"
  have a1: "?c \<in> set (snd (checkSensorThresholds ex_world ex_sensor_poll))" by code_simp
  have a2: "1 \<in> set (potNumbers (jobData (fst (snd ?c))))" by code_simp
  have a3: "3 \<notin> set (potNumbers (jobData (fst (snd ?c))))" by code_simp
  have n: "jobName (fst (snd ?c)) = ''threshold_1''" by code_simp
  show ?thesis
    using wet_pots_excluded [OF a1 a2, THEN conjunct1] a1 a2 a3 n by auto
qed



subsection \<open>Invocations that overlap\<close>

text \<open>
  The loop of an invocation that runs alone is the loop taken one await at a time: up to the next call of \<^verbatim>\<open>wateringQueue.add\<close>, the time the add takes, the stamp
  when it has resolved, and the loop again over the keys that are left.
\<close>

lemma next_add_Cons:
  "next_add env snap cfg (key # keys) w =
     (case map_of (entries cfg) key of
        Some (Object thr) \<Rightarrow>
          if aktif thr = Some True \<and> entry_need w snap thr \<noteq> []
          then Some (AwaitAdd env snap cfg key (entry_need w snap thr) (clock w)
                 (threshold_job key thr (entry_need w snap thr)
                    (map (\<lambda>p. (p, soil_value snap p)) (entry_need w snap thr)) (clock w)) keys)
          else next_add env snap cfg keys w
      | _ \<Rightarrow> next_add env snap cfg keys w)"
  by (simp add: check_pots_filter entry_need_def Let_def split: option.splits entry.splits)

lemma process_thresholds_steps:
  "process_thresholds env snap cfg keys w =
     (case next_add env snap cfg keys w of
        Some (AwaitAdd e s c key pots t job rest) \<Rightarrow>
          (case resume (w\<lparr> clock := clock w + int (addTime env key) \<rparr>)
                  (AwaitAdd e s c key pots t job rest) of
             (w1, tk', calls) \<Rightarrow>
               if addOk env key
               then (case process_thresholds env snap cfg rest w1 of
                       (w2, later) \<Rightarrow> (w2, calls @ later))
               else (w1, calls))
      | _ \<Rightarrow> (w, []))"
proof (induction keys)
  case Nil
  then show ?case by simp
next
  case (Cons key keys)
  show ?case
  proof (cases "\<exists>thr. map_of (entries cfg) key = Some (Object thr) \<and> aktif thr = Some True \<and>
                      entry_need w snap thr \<noteq> []")
    case True
    then obtain thr where thr: "map_of (entries cfg) key = Some (Object thr)" "aktif thr = Some True"
      "entry_need w snap thr \<noteq> []" by blast
    then show ?thesis
      by (simp add: next_add_Cons process_threshold_eq Let_def del: next_add.simps
               split: prod.splits)
  next
    case False
    have p: "process_threshold env snap key (map_of (entries cfg) key) w = (w, [])"
    proof (cases "\<exists>thr. map_of (entries cfg) key = Some (Object thr)")
      case True
      then show ?thesis using False by (auto simp: process_threshold_eq)
    next
      case False
      then show ?thesis by (simp add: process_threshold_other)
    qed
    have n: "next_add env snap cfg (key # keys) w = next_add env snap cfg keys w"
      using False by (auto simp: next_add_Cons simp del: next_add.simps
                           split: option.splits entry.splits)
    show ?thesis
      unfolding n using Cons.IH p by (simp split: prod.splits)
  qed
qed

lemma ex_keys: "pot_key 1 = ''pot_1''" "pot_key 2 = ''pot_2''"
  by code_simp+

lemma ex_soil: "soil_value ex_snapshot 1 = 20" "soil_value ex_snapshot 2 = 0"
  by code_simp+

text \<open>
  Claim C3, evaluated on the code. The cooldown time of a pot is tested at line 939 and
  written at lines 990--992, after the \<^verbatim>\<open>await\<close> of \<^verbatim>\<open>wateringQueue.add\<close> at line 962,
  and the invocation started by the timer and the one started by the listener share the
  table. From a world with no cooldown time, with pot 1 at 20 percent and pot 2
  unreadable, the listener starts an invocation 10 ms after the timer has started one,
  and each await takes its time (100 ms, 100 ms, 20 ms): both invocations test the pots
  before either has stamped them, and two jobs for the pots 1 and 2 enter the queue, at
  the clocks 1200 and 1210, which is 10 ms apart and not the 120000 ms of
  \<^verbatim>\<open>sensorDebounce\<close> (``2 menit minimum antar penyiraman per pot'', line 67). When the
  second invocation starts after the first has returned, it finds the pots cooling down
  and only the first job enters the queue.
\<close>

theorem overlapping_checks_enqueue_twice:
  "enqueue_pots (snd (run_worker (ex_world, []) ex_overlap)) = [(1200, [1, 2]), (1210, [1, 2])]
   \<and> (1210 :: int) - 1200 < sensorDebounce
   \<and> enqueue_pots (snd (run_worker (ex_world, []) ex_in_turn)) = [(1200, [1, 2])]"
  by (simp add: enqueue_pots_def enqueued_def ex_overlap_def ex_in_turn_def
        call_read_def call_fetch_def got_data_def got_kontrol_def ex_sensor_poll_def ex_world_def
        fresh_client_def SKIP_SDK_THRESHOLD_def Let_def ex_sensor_kontrol_def
        ex_threshold_def or_default_def cooling_def ex_keys ex_soil sensorDebounce_def)

end
